theory Spec2Isabelle
  imports Main "HOL-Library.Word"
begin

unbundle bit_operations_syntax

section \<open>Data model of memory/BufferAllocator.c\<close>

text \<open>
  The model fixes the LP64 data model: \<open>char*\<close>, \<open>uintptr_t\<close> and \<open>unsigned long\<close>
  are 64-bit words, so \<open>sizeof(char*)\<close> is 8. Pointer arithmetic and pointer comparison
  are the unsigned machine operations on the address (addition wraps modulo \<open>2^64\<close>),
  which is what the overflow checks of the source rely on. \<open>NULL\<close> is the address 0.
\<close>

type_synonym addr = "64 word"
type_synonym byte = "8 word"

text \<open>\<open>#define ALIGNMENT sizeof(char*)\<close>\<close>

definition ALIGNMENT :: addr where
  "ALIGNMENT = 8"

text \<open>
  \<open>#define getAligned(pointer, alignedOn)
     ((char*) ((uintptr_t)( ((char*)(pointer)) + (alignedOn) - 1) & ~ ((alignedOn) - 1)))\<close>
\<close>

definition getAligned :: "addr \<Rightarrow> addr \<Rightarrow> addr" where
  "getAligned p alignedOn = (p + alignedOn - 1) AND NOT (alignedOn - 1)"

text \<open>
  \<open>struct Job\<close>: the callback, its context and the link to the next job. The model has
  one arena, so the back reference \<open>alloc\<close> is not stored. Callbacks are opaque code
  addresses; calling one is recorded in the machine's \<open>fired\<close> trace.
\<close>

record Job =
  callback :: addr
  callbackContext :: addr
  nextJob :: addr

text \<open>
  \<open>struct BufferAllocator\<close>, the control block. The fields \<open>generic\<close> (the table of
  function pointers), \<open>file\<close> and \<open>line\<close> (diagnostics) and the identity tag carry no
  behaviour of their own and are left out.
\<close>

record BufferAllocator =
  basePointer :: addr
  pointer :: addr
  endPointer :: addr
  onFree :: addr
  onOOM :: addr

text \<open>
  The machine state the functions of the file work on: the control block, the Job structs
  stored in the arena (a typed heap, keyed by address), the bytes of memory, and two
  traces that record what the code calls outside itself: every \<open>Except_raise\<close> (handler
  and code) and every job callback (function and context), oldest first. The control
  block and the jobs are kept apart from the bytes: a write of bytes over them is not
  represented.
\<close>

record machine = BufferAllocator +
  jobs :: "addr \<Rightarrow> Job option"
  mem :: "addr \<Rightarrow> byte"
  raised :: "(addr \<times> int) list"
  fired :: "(addr \<times> addr) list"

text \<open>
  A call either returns a value or is left by the exception mechanism with the code given
  to \<open>Except_raise\<close>. The state comes with both: a non-local exit keeps what was written
  before it.
\<close>

datatype 'a outcome = Returned 'a | Raised int

datatype raise_effect = NonLocalExit | ReturnsToCaller

text \<open>
  Modelled from the spec: \<open>Except_raise\<close> of exception/Except.h, which is not among the
  sources. Section 4.4 of the specification: the handler must perform a non-local exit,
  and a handler that returns normally violates the contract. What a given handler does is
  a parameter \<open>ex\<close> of every operation; the call is recorded in \<open>raised\<close> either way.
\<close>

definition Except_raise ::
  "(addr \<Rightarrow> raise_effect) \<Rightarrow> addr \<Rightarrow> int \<Rightarrow> machine \<Rightarrow> unit outcome \<times> machine" where
  "Except_raise ex eh code s =
     (let s' = s\<lparr>raised := raised s @ [(eh, code)]\<rparr>
      in case ex eh of
           NonLocalExit \<Rightarrow> (Raised code, s')
         | ReturnsToCaller \<Rightarrow> (Returned (), s'))"

text \<open>Sequencing of two steps: a non-local exit in the first skips the second.\<close>

definition andThen ::
  "'a outcome \<times> machine \<Rightarrow> ('a \<Rightarrow> machine \<Rightarrow> 'b outcome \<times> machine) \<Rightarrow> 'b outcome \<times> machine" where
  "andThen m f = (case m of (Returned v, s') \<Rightarrow> f v s' | (Raised c, s') \<Rightarrow> (Raised c, s'))"

text \<open>The \<open>Except_raise\<close> calls made between the states \<open>s\<close> and \<open>s'\<close>.\<close>

definition raisedBy :: "machine \<Rightarrow> machine \<Rightarrow> (addr \<times> int) list" where
  "raisedBy s s' = drop (length (raised s)) (raised s')"

section \<open>Allocation\<close>

text \<open>\<open>allocatorMalloc\<close>, lines 63 to 85.\<close>

definition allocatorMalloc ::
  "(addr \<Rightarrow> raise_effect) \<Rightarrow> addr \<Rightarrow> machine \<Rightarrow> addr outcome \<times> machine" where
  "allocatorMalloc ex len s =
     (let pointer' = getAligned (pointer s) ALIGNMENT;
          endOfAlloc = pointer' + len
      in andThen (if endPointer s \<le> endOfAlloc
                  then Except_raise ex (onOOM s) (- 1) s else (Returned (), s))
         (\<lambda>_ s1. andThen (if endOfAlloc < pointer s1
                           then Except_raise ex (onOOM s1) (- 2) s1 else (Returned (), s1))
         (\<lambda>_ s2. (Returned pointer', s2\<lparr>pointer := endOfAlloc\<rparr>))))"

text \<open>
  Modelled from the spec: \<open>Bits_memset\<close> and \<open>Bits_memcpy\<close> of util/Bits.h, which is not
  among the sources. Section 1 of the specification treats them as the trusted raw
  zero-fill and copy primitives: \<open>n\<close> bytes from \<open>dst\<close> on are written, every other byte
  is kept. The copy reads the memory as it was before the call.
\<close>

definition Bits_memset :: "(addr \<Rightarrow> byte) \<Rightarrow> addr \<Rightarrow> byte \<Rightarrow> addr \<Rightarrow> addr \<Rightarrow> byte" where
  "Bits_memset m dst v n = (\<lambda>a. if a - dst < n then v else m a)"

definition Bits_memcpy :: "(addr \<Rightarrow> byte) \<Rightarrow> addr \<Rightarrow> addr \<Rightarrow> addr \<Rightarrow> addr \<Rightarrow> byte" where
  "Bits_memcpy m dst src n = (\<lambda>a. if a - dst < n then m (src + (a - dst)) else m a)"

text \<open>\<open>allocatorCalloc\<close>, lines 88 to 97.\<close>

definition allocatorCalloc ::
  "(addr \<Rightarrow> raise_effect) \<Rightarrow> addr \<Rightarrow> addr \<Rightarrow> machine \<Rightarrow> addr outcome \<times> machine" where
  "allocatorCalloc ex len count s =
     andThen (allocatorMalloc ex (len * count) s)
       (\<lambda>pointer' s1. (Returned pointer',
           s1\<lparr>mem := Bits_memset (mem s1) pointer' 0 (len * count)\<rparr>))"

text \<open>\<open>allocatorClone\<close>, lines 100 to 109.\<close>

definition allocatorClone ::
  "(addr \<Rightarrow> raise_effect) \<Rightarrow> addr \<Rightarrow> addr \<Rightarrow> machine \<Rightarrow> addr outcome \<times> machine" where
  "allocatorClone ex len toClone s =
     andThen (allocatorMalloc ex len s)
       (\<lambda>pointer' s1. (Returned pointer',
           s1\<lparr>mem := Bits_memcpy (mem s1) pointer' toClone len\<rparr>))"

text \<open>
  The local \<open>amountToClone\<close> of \<open>allocatorRealloc\<close>, lines 125 to 127: the difference of
  the two pointers is cast to \<open>uint32_t\<close>, compared with the \<open>unsigned long\<close> length
  (the usual arithmetic conversions widen the 32-bit value), and the chosen value is
  stored in a \<open>uint32_t\<close>.
\<close>

definition amountToClone :: "addr \<Rightarrow> addr \<Rightarrow> addr \<Rightarrow> 32 word" where
  "amountToClone len pointer' original =
     (if len < ucast (ucast (pointer' - original) :: 32 word)
      then ucast len
      else ucast (pointer' - original))"

text \<open>\<open>allocatorRealloc\<close>, lines 112 to 135.\<close>

definition allocatorRealloc ::
  "(addr \<Rightarrow> raise_effect) \<Rightarrow> addr \<Rightarrow> addr \<Rightarrow> machine \<Rightarrow> addr outcome \<times> machine" where
  "allocatorRealloc ex original len s =
     (if original = 0 then allocatorMalloc ex len s
      else
        let pointer' = pointer s;
            amount = amountToClone len pointer' original
        in andThen (allocatorMalloc ex len s)
             (\<lambda>newAlloc s1. (Returned newAlloc,
                 s1\<lparr>mem := Bits_memcpy (mem s1) newAlloc original (ucast amount)\<rparr>)))"

section \<open>Construction and the handler\<close>

text \<open>
  \<open>BufferAllocator_newWithIdentity\<close>, lines 214 to 254. \<open>sizeof(struct BufferAllocator)\<close>
  depends on declarations that are not among the sources (\<open>struct Allocator\<close>, the
  \<open>Identity\<close> macro), so it is the parameter \<open>sizeofBA\<close>. \<open>m\<close> is the memory the arena
  is built in. \<open>None\<close> is the result of the two \<open>return NULL\<close>; otherwise the handle
  returned is the address of the control block, which is \<open>basePointer\<close>. The designated
  initialiser leaves \<open>onFree\<close> and \<open>onOOM\<close> zero; copying \<open>tempAlloc\<close> to the aligned
  start of the buffer is the record becoming the state.
\<close>

definition BufferAllocator_newWithIdentity ::
  "addr \<Rightarrow> (addr \<Rightarrow> byte) \<Rightarrow> addr \<Rightarrow> addr \<Rightarrow> machine option" where
  "BufferAllocator_newWithIdentity sizeofBA m buffer len =
     (let tempAlloc =
            \<lparr>basePointer = getAligned buffer 8,
             pointer = getAligned buffer 8,
             endPointer = buffer + len,
             onFree = 0, onOOM = 0,
             jobs = (\<lambda>_. None), mem = m, raised = [], fired = []\<rparr>
      in if endPointer tempAlloc < pointer tempAlloc then None
         else if len + buffer < pointer tempAlloc + sizeofBA then None
         else Some (tempAlloc\<lparr>pointer := pointer tempAlloc + sizeofBA\<rparr>))"


text \<open>\<open>BufferAllocator_onOOM\<close>, lines 256 to 261.\<close>

definition BufferAllocator_onOOM :: "addr \<Rightarrow> machine \<Rightarrow> machine" where
  "BufferAllocator_onOOM exceptionHandler s = s\<lparr>onOOM := exceptionHandler\<rparr>"

section \<open>The chain of free jobs\<close>

text \<open>
  \<open>freeAllocator\<close>, lines 138 to 149. The loop follows the \<open>next\<close> pointers from
  \<open>context->onFree\<close> and calls every job's callback; it is a partial function, since a
  chain that runs in a circle keeps it going for ever. Reading a job at an address that
  holds none has no defined behaviour in C and gives \<open>None\<close> as well. Callbacks are
  opaque: a call is recorded in \<open>fired\<close> and leaves the arena as it is.
\<close>

partial_function (option) freeAllocator_loop :: "addr \<Rightarrow> machine \<Rightarrow> machine option" where
  "freeAllocator_loop job s =
     (if job = 0 then Some s
      else case jobs s job of
             None \<Rightarrow> None
           | Some j \<Rightarrow>
               freeAllocator_loop (nextJob j)
                 (s\<lparr>fired := fired s @ [(callback j, callbackContext j)]\<rparr>))"

declare freeAllocator_loop.simps [code]

definition freeAllocator :: "machine \<Rightarrow> machine option" where
  "freeAllocator s =
     (case freeAllocator_loop (onFree s) s of
        None \<Rightarrow> None
      | Some s1 \<Rightarrow> Some (s1\<lparr>pointer := basePointer s1\<rparr>))"

text \<open>
  \<open>removeOnFreeJob\<close>, lines 151 to 164. \<open>struct Job** jobPtr\<close> points either at the
  field \<open>onFree\<close> of the control block or at the field \<open>next\<close> of a job.
  \<open>Identity_cast\<close> of a handle that is no job aborts the process: \<open>None\<close>.
\<close>

datatype jobPtr = OnFreeField | NextField addr

fun deref :: "machine \<Rightarrow> jobPtr \<Rightarrow> addr option" where
  "deref s OnFreeField = Some (onFree s)"
| "deref s (NextField a) = map_option nextJob (jobs s a)"

fun assign :: "jobPtr \<Rightarrow> addr \<Rightarrow> machine \<Rightarrow> machine" where
  "assign OnFreeField v s = s\<lparr>onFree := v\<rparr>"
| "assign (NextField a) v s =
     s\<lparr>jobs := (jobs s)(a := map_option (\<lambda>j. j\<lparr>nextJob := v\<rparr>) (jobs s a))\<rparr>"

partial_function (option) removeOnFreeJob_loop ::
  "addr \<Rightarrow> jobPtr \<Rightarrow> machine \<Rightarrow> (int \<times> machine) option" where
  "removeOnFreeJob_loop j jobPtr s =
     (case deref s jobPtr of
        None \<Rightarrow> None
      | Some cur \<Rightarrow>
          if cur = 0 then Some (- 1, s)
          else if cur = j then
            (case jobs s cur of
               None \<Rightarrow> None
             | Some found \<Rightarrow> Some (0, assign jobPtr (nextJob found) s))
          else removeOnFreeJob_loop j (NextField cur) s)"

declare removeOnFreeJob_loop.simps [code]

definition removeOnFreeJob :: "addr \<Rightarrow> machine \<Rightarrow> (int \<times> machine) option" where
  "removeOnFreeJob toRemove s =
     (case jobs s toRemove of
        None \<Rightarrow> None
      | Some _ \<Rightarrow> removeOnFreeJob_loop toRemove OnFreeField s)"

text \<open>
  \<open>onFree\<close>, lines 167 to 193, under the name \<open>Allocator_onFree\<close> (the record field
  has the name \<open>onFree\<close>). \<open>Allocator_clone\<close> of the job literal is \<open>allocatorClone\<close>
  with \<open>sizeof(struct Job)\<close>: an allocation and a copy of the literal, which has
  \<open>next = NULL\<close>. \<open>sizeof(struct Job)\<close> is the parameter \<open>sizeofJob\<close>, as its
  declarations are not among the sources. The copy is a write to the typed heap of jobs.
  The loop walks to the last job of the chain.
\<close>

partial_function (option) onFree_loop :: "(addr \<Rightarrow> Job option) \<Rightarrow> addr \<Rightarrow> addr option" where
  "onFree_loop js job =
     (case js job of
        None \<Rightarrow> None
      | Some j \<Rightarrow> if nextJob j = 0 then Some job else onFree_loop js (nextJob j))"

declare onFree_loop.simps [code]

definition Allocator_onFree ::
  "(addr \<Rightarrow> raise_effect) \<Rightarrow> addr \<Rightarrow> addr \<Rightarrow> addr \<Rightarrow> machine
     \<Rightarrow> (addr outcome \<times> machine) option" where
  "Allocator_onFree ex sizeofJob cb cbContext s =
     (case allocatorMalloc ex sizeofJob s of
        (Raised c, s1) \<Rightarrow> Some (Raised c, s1)
      | (Returned newJob, s1) \<Rightarrow>
          let s2 = s1\<lparr>jobs := (jobs s1)(newJob \<mapsto>
                      \<lparr>callback = cb, callbackContext = cbContext, nextJob = 0\<rparr>)\<rparr>;
              job = onFree s2
          in if job = 0 then Some (Returned newJob, s2\<lparr>onFree := newJob\<rparr>)
             else case onFree_loop (jobs s2) job of
                    None \<Rightarrow> None
                  | Some lastJob \<Rightarrow> Some (Returned newJob, assign (NextField lastJob) newJob s2))"

section \<open>Sequences of calls\<close>

text \<open>
  A client of the arena: a list of calls, run one after the other. A call that is left by
  an exception is caught by the client, which goes on with the next call. \<open>Cancel k\<close>
  cancels the handle that the \<open>k\<close>-th successful registration returned (a client has no
  other handles); with fewer handles so far it does nothing. The events record what the
  registrations and cancellations returned.
\<close>

datatype call =
    Malloc addr
  | Calloc addr addr
  | Clone addr addr
  | Realloc addr addr
  | SetOOM addr
  | OnFree addr addr
  | Cancel nat
  | Free

datatype event = Registered addr addr addr | Cancelled addr int

fun handlesOf :: "event list \<Rightarrow> addr list" where
  "handlesOf [] = []"
| "handlesOf (Registered h cb cx # evs) = h # handlesOf evs"
| "handlesOf (Cancelled h rc # evs) = handlesOf evs"

fun perform ::
  "(addr \<Rightarrow> raise_effect) \<Rightarrow> addr \<Rightarrow> call \<Rightarrow> addr list \<Rightarrow> machine
     \<Rightarrow> (event list \<times> machine) option" where
  "perform ex sizeofJob (Malloc n) hs s = Some ([], snd (allocatorMalloc ex n s))"
| "perform ex sizeofJob (Calloc n c) hs s = Some ([], snd (allocatorCalloc ex n c s))"
| "perform ex sizeofJob (Clone n src) hs s = Some ([], snd (allocatorClone ex n src s))"
| "perform ex sizeofJob (Realloc orig n) hs s = Some ([], snd (allocatorRealloc ex orig n s))"
| "perform ex sizeofJob (SetOOM h) hs s = Some ([], BufferAllocator_onOOM h s)"
| "perform ex sizeofJob (OnFree cb cx) hs s =
     (case Allocator_onFree ex sizeofJob cb cx s of
        None \<Rightarrow> None
      | Some (Returned h, s') \<Rightarrow> Some ([Registered h cb cx], s')
      | Some (Raised c, s') \<Rightarrow> Some ([], s'))"
| "perform ex sizeofJob (Cancel k) hs s =
     (if k < length hs
      then case removeOnFreeJob (hs ! k) s of
             None \<Rightarrow> None
           | Some (rc, s') \<Rightarrow> Some ([Cancelled (hs ! k) rc], s')
      else Some ([], s))"
| "perform ex sizeofJob Free hs s =
     (case freeAllocator s of None \<Rightarrow> None | Some s' \<Rightarrow> Some ([], s'))"

fun run ::
  "(addr \<Rightarrow> raise_effect) \<Rightarrow> addr \<Rightarrow> call list \<Rightarrow> event list \<Rightarrow> machine
     \<Rightarrow> (event list \<times> machine) option" where
  "run ex sizeofJob [] evs s = Some (evs, s)"
| "run ex sizeofJob (c # cs) evs s =
     (case perform ex sizeofJob c (handlesOf evs) s of
        None \<Rightarrow> None
      | Some (new, s') \<Rightarrow> run ex sizeofJob cs (evs @ new) s')"

text \<open>
  What the events say about the jobs: a registration adds its job at the end, a
  cancellation takes the job with that handle away. What is left are the registered jobs
  that were not cancelled, in the order of their registration.
\<close>

fun survivors :: "event list \<Rightarrow> (addr \<times> addr \<times> addr) list \<Rightarrow> (addr \<times> addr \<times> addr) list" where
  "survivors [] live = live"
| "survivors (Registered h cb cx # evs) live = survivors evs (live @ [(h, cb, cx)])"
| "survivors (Cancelled h rc # evs) live = survivors evs (filter (\<lambda>j. fst j \<noteq> h) live)"

text \<open>
  The calls of a run about the chain: registrations and cancellations, and between them
  plain allocations and installations of a handler. The zero-filling and copying calls
  are left out: they write bytes of the arena, and the model keeps the jobs apart from
  the bytes.
\<close>

fun chainCall :: "call \<Rightarrow> bool" where
  "chainCall (OnFree cb cx) = True"
| "chainCall (Cancel k) = True"
| "chainCall (Malloc n) = True"
| "chainCall (SetOOM h) = True"
| "chainCall (Calloc n c) = False"
| "chainCall (Clone n src) = False"
| "chainCall (Realloc orig n) = False"
| "chainCall Free = False"

section \<open>Well-formed chains\<close>

text \<open>
  \<open>chain js p as\<close>: following the \<open>next\<close> pointers from \<open>p\<close> in the heap \<open>js\<close> visits
  exactly the jobs at the addresses \<open>as\<close>, in this order, and then reaches \<open>NULL\<close>.
\<close>

fun chain :: "(addr \<Rightarrow> Job option) \<Rightarrow> addr \<Rightarrow> addr list \<Rightarrow> bool" where
  "chain js p [] \<longleftrightarrow> p = 0"
| "chain js p (a # as) \<longleftrightarrow>
     p = a \<and> a \<noteq> 0 \<and> (case js a of None \<Rightarrow> False | Some j \<Rightarrow> chain js (nextJob j) as)"

text \<open>The callback and context stored in the job at an address.\<close>

definition callOf :: "(addr \<Rightarrow> Job option) \<Rightarrow> addr \<Rightarrow> addr \<times> addr" where
  "callOf js a = (case js a of None \<Rightarrow> (0, 0) | Some j \<Rightarrow> (callback j, callbackContext j))"

text \<open>
  The invariant of a run: the chain in the heap holds exactly the live jobs \<open>live\<close>
  (handle, callback, context), in order; the handles \<open>hs\<close> given out so far are distinct,
  lie below the cursor and hold jobs; the cursor is not \<open>NULL\<close>.
\<close>

definition tracks :: "machine \<Rightarrow> addr list \<Rightarrow> (addr \<times> addr \<times> addr) list \<Rightarrow> bool" where
  "tracks s hs live \<longleftrightarrow>
     chain (jobs s) (onFree s) (map fst live) \<and>
     distinct hs \<and> distinct (map fst live) \<and> set (map fst live) \<subseteq> set hs \<and>
     (\<forall>j \<in> set live. callOf (jobs s) (fst j) = snd j) \<and>
     (\<forall>h \<in> set hs. h < pointer s \<and> jobs s h \<noteq> None) \<and>
     pointer s \<noteq> 0"

text \<open>
  Two states that differ in the links of the chain only: the field \<open>onFree\<close> and the
  \<open>next\<close> fields of jobs.
\<close>

definition relinked :: "machine \<Rightarrow> machine \<Rightarrow> bool" where
  "relinked s s' \<longleftrightarrow>
     s' = s\<lparr>onFree := onFree s', jobs := jobs s'\<rparr> \<and>
     (\<forall>a. (jobs s' a = None \<longleftrightarrow> jobs s a = None) \<and> callOf (jobs s') a = callOf (jobs s) a)"

text \<open>
  What an allocation does to a state when the handler exits: the cursor does not go down,
  and the chain, the trace of callbacks and \<open>basePointer\<close> stay as they are.
\<close>

definition grown :: "machine \<Rightarrow> machine \<Rightarrow> bool" where
  "grown s s' \<longleftrightarrow>
     pointer s \<le> pointer s' \<and> jobs s' = jobs s \<and> onFree s' = onFree s \<and>
     fired s' = fired s \<and> basePointer s' = basePointer s"

section \<open>A sample arena\<close>

text \<open>
  The arena that construction builds in a 4096-byte buffer at address \<open>0x1000\<close> when the
  control block takes 72 bytes, with a handler installed at \<open>0x77\<close>. The closed theorems
  below evaluate the code on it.
\<close>

definition sampleArena :: machine where
  "sampleArena =
     \<lparr>basePointer = 0x1000, pointer = 0x1048, endPointer = 0x2000, onFree = 0, onOOM = 0x77,
      jobs = (\<lambda>_. None), mem = (\<lambda>_. 0), raised = [], fired = []\<rparr>"

text \<open>
  The sample arena after one byte has been allocated, and the same with only two bytes
  left before the end of the region.
\<close>

definition afterOneByte :: machine where
  "afterOneByte = sampleArena\<lparr>pointer := 0x1049\<rparr>"

definition nearEnd :: machine where
  "nearEnd = sampleArena\<lparr>endPointer := 0x104B, pointer := 0x1049\<rparr>"

text \<open>The sample arena in memory that holds the byte \<open>0xAA\<close> everywhere.\<close>

definition dirtyArena :: machine where
  "dirtyArena = sampleArena\<lparr>mem := (\<lambda>_. 0xAA)\<rparr>"

text \<open>
  An arena in a buffer of 8 GiB at \<open>0xFB8\<close>, after a first allocation of \<open>2^32\<close> bytes
  at \<open>0x1000\<close>, whose first byte holds \<open>0xAB\<close>.
\<close>

definition hugeArena :: machine where
  "hugeArena =
     \<lparr>basePointer = 0xFB8, pointer = 0x100001000, endPointer = 0x200000FB8, onFree = 0,
      onOOM = 0, jobs = (\<lambda>_. None), mem = (\<lambda>a. if a = 0x1000 then 0xAB else 0),
      raised = [], fired = []\<rparr>"

text \<open>
  The sample arena with two registered jobs: callback 1 with context 11 at \<open>0x1048\<close>,
  then callback 2 with context 22 at \<open>0x1078\<close> (a job takes 48 bytes).
\<close>

definition twoJobs :: machine where
  "twoJobs =
     sampleArena\<lparr>pointer := 0x10A8, onFree := 0x1048,
       jobs := (\<lambda>a. if a = 0x1048
                      then Some \<lparr>callback = 1, callbackContext = 11, nextJob = 0x1078\<rparr>
                    else if a = 0x1078
                      then Some \<lparr>callback = 2, callbackContext = 22, nextJob = 0\<rparr>
                    else None)\<rparr>"

section \<open>The specification's reading of resize\<close>

text \<open>
  Section 4.1 of the specification, in its words: an empty \<open>original\<close> behaves as
  allocate; otherwise a fresh block of \<open>newSize\<close> is allocated and
  \<open>min(newSize, cursor - original)\<close> bytes are copied into it, with the cursor as it
  was before the fresh allocation.
\<close>

definition resize_spec ::
  "(addr \<Rightarrow> raise_effect) \<Rightarrow> addr \<Rightarrow> addr \<Rightarrow> machine \<Rightarrow> addr outcome \<times> machine" where
  "resize_spec ex original newSize s =
     (if original = 0 then allocatorMalloc ex newSize s
      else andThen (allocatorMalloc ex newSize s)
             (\<lambda>fresh s1. (Returned fresh,
                 s1\<lparr>mem := Bits_memcpy (mem s1) fresh original
                              (min newSize (pointer s - original))\<rparr>)))"

section \<open>The scenario of the reset\<close>

text \<open>
  Construct an arena, allocate \<open>n\<close> bytes, run any calls, free the arena, allocate \<open>k\<close>
  bytes: the results of the first and of the last allocation.
\<close>

definition firstAndNext ::
  "(addr \<Rightarrow> raise_effect) \<Rightarrow> addr \<Rightarrow> addr \<Rightarrow> (addr \<Rightarrow> byte) \<Rightarrow> addr \<Rightarrow> addr \<Rightarrow> addr
     \<Rightarrow> call list \<Rightarrow> addr \<Rightarrow> (addr outcome \<times> addr outcome) option" where
  "firstAndNext ex sizeofBA sizeofJob m buffer len n calls k =
     (case BufferAllocator_newWithIdentity sizeofBA m buffer len of
        None \<Rightarrow> None
      | Some s0 \<Rightarrow>
          (case allocatorMalloc ex n s0 of
             (a, s1) \<Rightarrow>
               (case run ex sizeofJob calls [] s1 of
                  None \<Rightarrow> None
                | Some (evs, s2) \<Rightarrow>
                    (case freeAllocator s2 of
                       None \<Rightarrow> None
                     | Some s3 \<Rightarrow> Some (a, fst (allocatorMalloc ex k s3))))))"

section \<open>The arithmetic of alignment\<close>

lemma and_7_mod_8:
  fixes a :: addr
  assumes "a AND 7 = 0"
  shows "unat a mod 8 = 0"
proof -
  have seven: "(7 :: addr) = mask 3"
    by (simp add: mask_eq_exp_minus_1)
  have "take_bit 3 a = a AND mask 3"
    by (rule take_bit_eq_mask)
  with assms have "take_bit 3 a = 0"
    by (simp add: seven)
  then have "unat (take_bit 3 a) = 0"
    by simp
  then have "take_bit 3 (unat a) = 0"
    by (simp add: unsigned_take_bit_eq)
  then show ?thesis
    by (simp add: take_bit_eq_mod)
qed

lemma getAligned_mod_8: "unat (getAligned p ALIGNMENT) mod 8 = 0"
  unfolding getAligned_def ALIGNMENT_def
  by (rule and_7_mod_8) (simp add: and.assoc)

lemma and_not_7: "(x :: addr) AND NOT 7 = push_bit 3 (drop_bit 3 x)"
proof -
  have seven: "(7 :: addr) = mask 3"
    by (simp add: mask_eq_exp_minus_1)
  show ?thesis
    unfolding seven
    by (rule bit_eqI) (auto simp add: bit_simps)
qed

lemma unat_and_not_7: "unat ((x :: addr) AND NOT 7) = unat x div 8 * 8"
proof -
  have "unat (push_bit 3 (drop_bit 3 x)) = take_bit 64 (push_bit 3 (unat (drop_bit 3 x)))"
    by (simp add: unsigned_push_bit_eq)
  also have "unat (drop_bit 3 x) = unat x div 8"
    by (simp add: drop_bit_eq_div unat_div)
  also have "take_bit 64 (push_bit 3 (unat x div 8)) = (unat x div 8 * 8) mod 2 ^ 64"
    by (simp add: take_bit_eq_mod push_bit_eq_mult)
  also have "\<dots> = unat x div 8 * 8"
  proof -
    have "unat x div 8 * 8 \<le> unat x" by simp
    also have "unat x < 2 ^ 64" using unsigned_less [of x] by simp
    finally show ?thesis by simp
  qed
  finally show ?thesis by (simp only: and_not_7)
qed

lemma unat_getAligned:
  "unat (getAligned p ALIGNMENT) = ((unat p + 7) mod 2 ^ 64) div 8 * 8"
proof -
  have "p + 8 - 1 = p + 7"
    by simp
  then have "getAligned p ALIGNMENT = (p + 7) AND NOT 7"
    by (simp only: getAligned_def ALIGNMENT_def) simp
  moreover have "unat (p + 7) = (unat p + 7) mod 2 ^ 64"
    by (simp add: unat_word_ariths)
  ultimately show ?thesis
    by (simp only: unat_and_not_7)
qed

lemma getAligned_bounds:
  assumes "unat p \<le> 2 ^ 64 - 8"
  shows "unat p \<le> unat (getAligned p ALIGNMENT)" "unat (getAligned p ALIGNMENT) < unat p + 8"
proof -
  from assms have eq: "(unat p + 7) mod 2 ^ 64 = unat p + 7"
    by simp
  show "unat p \<le> unat (getAligned p ALIGNMENT)"
    unfolding unat_getAligned eq by presburger
  show "unat (getAligned p ALIGNMENT) < unat p + 8"
    unfolding unat_getAligned eq by presburger
qed

lemma getAligned_wrap:
  assumes "\<not> unat p \<le> 2 ^ 64 - 8"
  shows "getAligned p ALIGNMENT = 0"
proof -
  have "unat p < 2 ^ 64" using unsigned_less [of p] by simp
  with assms have "(unat p + 7) mod 2 ^ 64 = unat p + 7 - 2 ^ 64"
    by (simp add: mod_if)
  with assms \<open>unat p < 2 ^ 64\<close> have "unat (getAligned p ALIGNMENT) = 0"
    by (simp add: unat_getAligned)
  then show ?thesis by (simp add: unat_eq_0)
qed

lemma getAligned_idem:
  assumes "unat p mod 8 = 0"
  shows "getAligned p ALIGNMENT = p"
proof -
  from assms have "8 dvd unat p"
    by (simp add: dvd_eq_mod_eq_0)
  then obtain k where k: "unat p = 8 * k" ..
  have "unat p < 2 ^ 64"
    using unsigned_less [of p] by simp
  with k have "k < 2 ^ 61"
    by simp
  then have small: "8 * k + 7 < 2 ^ 64"
    by simp
  have "(8 * k + 7) div 8 = k"
    by simp
  with small have "unat (getAligned p ALIGNMENT) = unat p"
    by (simp add: unat_getAligned k)
  then show ?thesis
    by (simp add: word_unat_eq_iff)
qed

text \<open>
  What a successful request says when the handler exits and the size is between 1 and
  \<open>2^64 - 8\<close>: neither the alignment nor the addition has wrapped around, so the block
  starts at or after the old cursor and the new cursor is past its start.
\<close>

lemma allocatorMalloc_success:
  assumes ok: "allocatorMalloc ex n s = (Returned a, s')"
    and exits: "ex (onOOM s) = NonLocalExit"
    and n: "0 < unat n" "unat n \<le> 2 ^ 64 - 8"
  shows "a = getAligned (pointer s) ALIGNMENT" "s' = s\<lparr>pointer := a + n\<rparr>"
    "pointer s \<le> a" "a < a + n" "a + n < endPointer s"
proof -
  let ?a = "getAligned (pointer s) ALIGNMENT"
  from ok exits have c1: "\<not> endPointer s \<le> ?a + n" and c2: "\<not> ?a + n < pointer s"
    and a: "a = ?a" and s': "s' = s\<lparr>pointer := ?a + n\<rparr>"
    by (auto simp add: allocatorMalloc_def andThen_def Let_def Except_raise_def split: if_splits)
  show "a = ?a" by fact
  show "s' = s\<lparr>pointer := a + n\<rparr>" using s' a by simp
  show "a + n < endPointer s" using c1 a by simp
  have nowrap: "unat (pointer s) \<le> 2 ^ 64 - 8"
  proof (rule ccontr)
    assume w: "\<not> unat (pointer s) \<le> 2 ^ 64 - 8"
    then have "?a = 0" by (rule getAligned_wrap)
    with c2 have "unat (pointer s) \<le> unat n" by (simp add: word_less_nat_alt)
    with w n show False by simp
  qed
  note b = getAligned_bounds [OF nowrap]
  show le: "pointer s \<le> a" using b a by (simp add: word_le_nat_alt)
  have "unat ?a + unat n < 2 ^ 64"
  proof (rule ccontr)
    assume w: "\<not> unat ?a + unat n < 2 ^ 64"
    then have "unat (?a + n) = unat ?a + unat n - 2 ^ 64"
      by (simp add: unat_plus_if')
    moreover from c2 have "unat (pointer s) \<le> unat (?a + n)" by (simp add: word_less_nat_alt)
    ultimately show False using b n w by simp
  qed
  then have "unat (?a + n) = unat ?a + unat n" by (simp add: unat_add_lem [THEN iffD1])
  with n show "a < a + n" using a by (simp add: word_less_nat_alt)
qed



lemma getAligned_sample: "getAligned 0x1048 ALIGNMENT = 0x1048"
  by (simp add: getAligned_def ALIGNMENT_def)

lemma getAligned_unaligned_sample: "getAligned 0x1049 ALIGNMENT = 0x1050"
  by (simp add: getAligned_def ALIGNMENT_def)

section \<open>Properties of allocation\<close>


lemma raisedBy_append: "raised s' = raised s @ xs \<Longrightarrow> raisedBy s s' = xs"
  by (simp add: raisedBy_def)

lemma allocatorMalloc_oom_exit:
  "endPointer s \<le> getAligned (pointer s) ALIGNMENT + n \<Longrightarrow> ex (onOOM s) = NonLocalExit \<Longrightarrow>
   allocatorMalloc ex n s = (Raised (- 1), s\<lparr>raised := raised s @ [(onOOM s, - 1)]\<rparr>)"
  by (simp add: allocatorMalloc_def andThen_def Let_def Except_raise_def)

text \<open>
  The handler calls that one \<open>allocatorMalloc\<close> makes: code -1 when the end of the
  allocation reaches \<open>endPointer\<close>, and code -2 when control gets to the second check
  and the end of the allocation is below the cursor.
\<close>

lemma allocatorMalloc_raised:
  "raised (snd (allocatorMalloc ex n s)) = raised s @
     (if endPointer s \<le> getAligned (pointer s) ALIGNMENT + n then [(onOOM s, - 1)] else []) @
     (if (endPointer s \<le> getAligned (pointer s) ALIGNMENT + n \<longrightarrow> ex (onOOM s) = ReturnsToCaller)
         \<and> getAligned (pointer s) ALIGNMENT + n < pointer s then [(onOOM s, - 2)] else [])"
  by (cases "ex (onOOM s)") (simp_all add: allocatorMalloc_def andThen_def Let_def Except_raise_def)



lemma allocatorMalloc_sample:
  "allocatorMalloc ex 100 sampleArena = (Returned 0x1048, sampleArena\<lparr>pointer := 0x10AC\<rparr>)"
  by (simp add: allocatorMalloc_def andThen_def Let_def sampleArena_def getAligned_sample)

text \<open>
  C2, as the claim states it, fails: when the handler returns to \<open>allocatorMalloc\<close>,
  the function has no \<open>return\<close> after \<open>Except_raise\<close> and goes on. On the sample arena
  a request of \<open>0x1000\<close> bytes calls the handler with code -1 and then moves the cursor
  from \<open>0x1048\<close> to \<open>0x2048\<close>, past \<open>endPointer\<close>.
\<close>

theorem allocatorMalloc_returning_handler_moves_cursor:
  "endPointer sampleArena \<le> getAligned (pointer sampleArena) ALIGNMENT + 0x1000 \<and>
   allocatorMalloc (\<lambda>_. ReturnsToCaller) 0x1000 sampleArena =
     (Returned 0x1048, sampleArena\<lparr>pointer := 0x2048, raised := [(0x77, - 1)]\<rparr>) \<and>
   pointer (snd (allocatorMalloc (\<lambda>_. ReturnsToCaller) 0x1000 sampleArena))
     \<noteq> pointer sampleArena"
  by (simp add: allocatorMalloc_def andThen_def Let_def Except_raise_def sampleArena_def
      getAligned_sample)

text \<open>
  C2, amended. When the end of the allocation is at or past \<open>endPointer\<close> and the handler
  leaves by a non-local exit, the call is left with code -1, the handler has been called
  once and nothing else has changed: the cursor is what it was. When the handler returns
  instead, and the end of the allocation is not below the cursor, the call returns the
  aligned cursor and sets the cursor to the end of the allocation.
\<close>

theorem allocatorMalloc_oom_cursor:
  "(endPointer s \<le> getAligned (pointer s) ALIGNMENT + n \<and> ex (onOOM s) = NonLocalExit \<longrightarrow>
      allocatorMalloc ex n s = (Raised (- 1), s\<lparr>raised := raised s @ [(onOOM s, - 1)]\<rparr>) \<and>
      pointer (snd (allocatorMalloc ex n s)) = pointer s) \<and>
   (endPointer s \<le> getAligned (pointer s) ALIGNMENT + n \<and> ex (onOOM s) = ReturnsToCaller \<and>
    \<not> getAligned (pointer s) ALIGNMENT + n < pointer s \<longrightarrow>
      allocatorMalloc ex n s =
        (Returned (getAligned (pointer s) ALIGNMENT),
         s\<lparr>raised := raised s @ [(onOOM s, - 1)],
           pointer := getAligned (pointer s) ALIGNMENT + n\<rparr>))"
  by (simp add: allocatorMalloc_def andThen_def Let_def Except_raise_def)

theorem allocatorMalloc_oom_cursor_witness:
  "allocatorMalloc (\<lambda>_. NonLocalExit) 0x1000 sampleArena =
      (Raised (- 1), sampleArena\<lparr>raised := [(0x77, - 1)]\<rparr>) \<and>
   pointer (snd (allocatorMalloc (\<lambda>_. NonLocalExit) 0x1000 sampleArena)) = 0x1048 \<and>
   allocatorMalloc (\<lambda>_. ReturnsToCaller) 0x1000 sampleArena =
      (Returned 0x1048, sampleArena\<lparr>raised := [(0x77, - 1)], pointer := 0x2048\<rparr>)"
  using allocatorMalloc_oom_cursor [of sampleArena "0x1000" "\<lambda>_. NonLocalExit"]
    allocatorMalloc_oom_cursor [of sampleArena "0x1000" "\<lambda>_. ReturnsToCaller"]
  by (simp add: sampleArena_def getAligned_sample)

subsection \<open>The overflow check\<close>

text \<open>Both arenas are reached from a constructed one by a request of one byte.\<close>

lemma afterOneByte_reached:
  "allocatorMalloc ex 1 sampleArena = (Returned 0x1048, afterOneByte)"
  by (simp add: allocatorMalloc_def andThen_def Let_def sampleArena_def getAligned_sample
      afterOneByte_def)

lemma nearEnd_reached:
  "allocatorMalloc ex 1 (sampleArena\<lparr>endPointer := 0x104B\<rparr>) = (Returned 0x1048, nearEnd)"
  by (simp add: allocatorMalloc_def andThen_def Let_def sampleArena_def getAligned_sample
      nearEnd_def)

text \<open>
  C4, as the claim states it, fails. The out-of-memory check comes first: in the arena
  \<open>nearEnd\<close> (cursor \<open>0x1049\<close>, end \<open>0x104B\<close>) a request of \<open>2^64 - 3\<close> bytes wraps
  around to \<open>0x104D\<close>, below the aligned cursor \<open>0x1050\<close>, and the handler is called with
  code -1, never with code -2.
\<close>

theorem allocatorMalloc_wrap_raises_oom_first:
  "getAligned (pointer nearEnd) ALIGNMENT + 0xFFFFFFFFFFFFFFFD
     < getAligned (pointer nearEnd) ALIGNMENT \<and>
   allocatorMalloc (\<lambda>_. NonLocalExit) 0xFFFFFFFFFFFFFFFD nearEnd =
     (Raised (- 1), nearEnd\<lparr>raised := [(0x77, - 1)]\<rparr>) \<and>
   (0x77, - 2) \<notin>
     set (raisedBy nearEnd (snd (allocatorMalloc (\<lambda>_. NonLocalExit) 0xFFFFFFFFFFFFFFFD nearEnd)))"
  by (simp add: allocatorMalloc_def andThen_def Let_def Except_raise_def sampleArena_def
      getAligned_unaligned_sample nearEnd_def raisedBy_def)

text \<open>
  The second check of the source compares the end of the allocation with
  \<open>context->pointer\<close>, the cursor before alignment, not with the aligned \<open>pointer\<close>. An
  end that wraps around into the alignment gap passes both checks: after one byte has
  been allocated, a request of \<open>2^64 - 3\<close> bytes returns \<open>0x1050\<close> and sets the cursor
  to \<open>0x104D\<close>, with no call of the handler.
\<close>

lemma allocatorMalloc_wrap_into_gap_accepted:
  "getAligned (pointer afterOneByte) ALIGNMENT + 0xFFFFFFFFFFFFFFFD
     < getAligned (pointer afterOneByte) ALIGNMENT \<and>
   allocatorMalloc ex 0xFFFFFFFFFFFFFFFD afterOneByte =
     (Returned 0x1050, afterOneByte\<lparr>pointer := 0x104D\<rparr>)"
  by (simp add: allocatorMalloc_def andThen_def Let_def sampleArena_def
      getAligned_unaligned_sample afterOneByte_def)

text \<open>
  C4, amended. When the out-of-memory check does not fire and the end of the allocation
  is below the cursor as it was before alignment, \<open>allocatorMalloc\<close> calls the handler
  exactly once, with the overflow code -2, and a handler that exits leaves the call with
  that code. With a cursor that is already aligned this is the condition of the claim:
  the end of the allocation is below the aligned cursor. The code -2 is not the
  out-of-memory code -1.
\<close>

theorem allocatorMalloc_overflow:
  "(\<not> endPointer s \<le> getAligned (pointer s) ALIGNMENT + n \<and>
    getAligned (pointer s) ALIGNMENT + n < pointer s \<longrightarrow>
      raisedBy s (snd (allocatorMalloc ex n s)) = [(onOOM s, - 2)] \<and>
      (ex (onOOM s) = NonLocalExit \<longrightarrow> fst (allocatorMalloc ex n s) = Raised (- 2))) \<and>
   (\<not> endPointer s \<le> getAligned (pointer s) ALIGNMENT + n \<and>
    getAligned (pointer s) ALIGNMENT = pointer s \<and>
    getAligned (pointer s) ALIGNMENT + n < getAligned (pointer s) ALIGNMENT \<longrightarrow>
      raisedBy s (snd (allocatorMalloc ex n s)) = [(onOOM s, - 2)]) \<and>
   (- 2 :: int) \<noteq> - 1"
proof -
  have overflow: "raisedBy s (snd (allocatorMalloc ex n s)) = [(onOOM s, - 2)]"
    if "\<not> endPointer s \<le> getAligned (pointer s) ALIGNMENT + n"
      and "getAligned (pointer s) ALIGNMENT + n < pointer s"
    using that by (simp add: raisedBy_append [OF allocatorMalloc_raised])
  have leaves: "fst (allocatorMalloc ex n s) = Raised (- 2)"
    if "\<not> endPointer s \<le> getAligned (pointer s) ALIGNMENT + n"
      and "getAligned (pointer s) ALIGNMENT + n < pointer s"
      and "ex (onOOM s) = NonLocalExit"
    using that by (simp add: allocatorMalloc_def andThen_def Let_def Except_raise_def)
  show ?thesis
    using overflow leaves by auto
qed

theorem allocatorMalloc_overflow_witness:
  "raisedBy sampleArena (snd (allocatorMalloc (\<lambda>_. NonLocalExit) 0xFFFFFFFFFFFFFFF8 sampleArena))
     = [(0x77, - 2)] \<and>
   fst (allocatorMalloc (\<lambda>_. NonLocalExit) 0xFFFFFFFFFFFFFFF8 sampleArena) = Raised (- 2)"
  using allocatorMalloc_overflow [of sampleArena "0xFFFFFFFFFFFFFFF8" "\<lambda>_. NonLocalExit"]
  by (simp add: sampleArena_def getAligned_sample)

subsection \<open>Alignment\<close>

lemma allocatorMalloc_Returned:
  "fst (allocatorMalloc ex n s) = Returned a \<Longrightarrow> a = getAligned (pointer s) ALIGNMENT"
  by (cases "ex (onOOM s)")
    (auto simp add: allocatorMalloc_def andThen_def Let_def Except_raise_def split: if_splits)

lemma fst_andThen_Returned: "fst (andThen m (\<lambda>v s'. (Returned v, g v s'))) = fst m"
  by (cases m, cases "fst m") (auto simp: andThen_def)

lemma snd_andThen_Returned:
  "fst m = Returned v \<Longrightarrow> snd (andThen m (\<lambda>v s'. (Returned v, g v s'))) = g v (snd m)"
  by (cases m) (auto simp: andThen_def)

text \<open>
  C9. Every address that \<open>allocatorMalloc\<close>, \<open>allocatorCalloc\<close>, \<open>allocatorClone\<close> or
  \<open>allocatorRealloc\<close> returns is divisible by \<open>ALIGNMENT\<close>, the size of a pointer.
\<close>

theorem returned_addresses_aligned:
  "(fst (allocatorMalloc ex n s) = Returned a \<longrightarrow> unat a mod unat ALIGNMENT = 0) \<and>
   (fst (allocatorCalloc ex n c s) = Returned a \<longrightarrow> unat a mod unat ALIGNMENT = 0) \<and>
   (fst (allocatorClone ex n src s) = Returned a \<longrightarrow> unat a mod unat ALIGNMENT = 0) \<and>
   (fst (allocatorRealloc ex orig n s) = Returned a \<longrightarrow> unat a mod unat ALIGNMENT = 0)"
proof -
  have u: "unat ALIGNMENT = 8"
    by (simp add: ALIGNMENT_def)
  have m: "unat a mod 8 = 0" if "fst (allocatorMalloc ex k s) = Returned a" for k
  proof -
    from that have "a = getAligned (pointer s) ALIGNMENT"
      by (rule allocatorMalloc_Returned)
    then show ?thesis
      by (simp add: getAligned_mod_8)
  qed
  show ?thesis
    unfolding u allocatorCalloc_def allocatorClone_def allocatorRealloc_def Let_def
    by (auto simp: fst_andThen_Returned dest: m)
qed

lemma sample_calls_Returned:
  "fst (allocatorMalloc ex 100 sampleArena) = Returned 0x1048"
  "fst (allocatorCalloc ex 100 1 sampleArena) = Returned 0x1048"
  "fst (allocatorClone ex 100 0x3000 sampleArena) = Returned 0x1048"
  "fst (allocatorRealloc ex 0x1040 100 sampleArena) = Returned 0x1048"
  by (simp_all add: allocatorCalloc_def allocatorClone_def allocatorRealloc_def Let_def
      fst_andThen_Returned allocatorMalloc_sample)

theorem returned_addresses_aligned_witness:
  "fst (allocatorMalloc (\<lambda>_. NonLocalExit) 100 sampleArena) = Returned 0x1048 \<and>
   fst (allocatorCalloc (\<lambda>_. NonLocalExit) 100 1 sampleArena) = Returned 0x1048 \<and>
   fst (allocatorClone (\<lambda>_. NonLocalExit) 100 0x3000 sampleArena) = Returned 0x1048 \<and>
   fst (allocatorRealloc (\<lambda>_. NonLocalExit) 0x1040 100 sampleArena) = Returned 0x1048 \<and>
   unat (0x1048 :: addr) mod unat ALIGNMENT = 0"
  using returned_addresses_aligned
    [where ex = "\<lambda>_. NonLocalExit" and n = 100 and s = sampleArena and a = "0x1048"
       and c = 1 and src = "0x3000" and orig = "0x1040"]
  by (simp add: sample_calls_Returned)

subsection \<open>Construction\<close>


lemma newWithIdentity_Some:
  "BufferAllocator_newWithIdentity sizeofBA m buffer len = Some s \<Longrightarrow>
     s = \<lparr>basePointer = getAligned buffer 8, pointer = getAligned buffer 8 + sizeofBA,
          endPointer = buffer + len, onFree = 0, onOOM = 0,
          jobs = (\<lambda>_. None), mem = m, raised = [], fired = []\<rparr>"
  by (auto simp add: BufferAllocator_newWithIdentity_def Let_def split: if_splits)


lemma getAligned_8_samples:
  "getAligned 0x1000 8 = 0x1000"
  "getAligned 0x1001 8 = 0x1008"
  "getAligned 0xFB8 8 = 0xFB8"
  by (simp_all add: getAligned_def)




text \<open>
  What construction leaves: an empty chain, no callback fired, and a cursor that is not
  \<open>NULL\<close> as long as the control block has a size and does not wrap around.
\<close>

lemma newWithIdentity_fresh:
  assumes "BufferAllocator_newWithIdentity sizeofBA m buffer len = Some s"
    and "unat (getAligned buffer 8) + unat sizeofBA < 2 ^ 64" and "sizeofBA \<noteq> 0"
  shows "onFree s = 0" "fired s = []" "pointer s \<noteq> 0"
proof -
  note s = newWithIdentity_Some [OF assms(1)]
  show "onFree s = 0" "fired s = []"
    by (simp_all add: s)
  have "unat (pointer s) = unat (getAligned buffer 8) + unat sizeofBA"
    using assms(2) by (simp add: s unat_add_lem [THEN iffD1])
  moreover have "0 < unat sizeofBA"
    using assms(3) by (simp add: unat_gt_0)
  ultimately have "unat (pointer s) \<noteq> 0"
    by simp
  then show "pointer s \<noteq> 0"
    by (simp add: unat_eq_0)
qed

subsection \<open>Resize\<close>

lemma unat_ucast_32_64:
  "unat (ucast (ucast (x :: addr) :: 32 word) :: addr) = unat x mod 2 ^ 32"
proof -
  have "(ucast (ucast x :: 32 word) :: addr) = take_bit 32 x"
    by (simp add: unsigned_ucast_eq)
  then have "unat (ucast (ucast x :: 32 word) :: addr) = unat (take_bit 32 x)"
    by simp
  also have "\<dots> = take_bit 32 (unat x)"
    by (rule unsigned_take_bit_eq)
  finally show ?thesis
    by (simp add: take_bit_eq_mod)
qed

text \<open>The number of bytes the source copies, as a number.\<close>

lemma unat_amountToClone:
  "unat (ucast (amountToClone len p original) :: addr) =
     min (unat len) (unat (p - original) mod 2 ^ 32)"
proof (cases "len < ucast (ucast (p - original) :: 32 word)")
  case True
  then have lt: "unat len < unat (p - original) mod 2 ^ 32"
    by (simp add: word_less_nat_alt unat_ucast_32_64)
  then have "unat len < 2 ^ 32"
    by (rule less_trans) simp
  then have "unat (ucast (ucast len :: 32 word) :: addr) = unat len"
    by (simp add: unat_ucast_32_64)
  with True lt show ?thesis
    by (simp add: amountToClone_def)
next
  case False
  then have "\<not> unat len < unat (p - original) mod 2 ^ 32"
    by (simp add: word_less_nat_alt unat_ucast_32_64)
  with False show ?thesis
    by (simp add: amountToClone_def unat_ucast_32_64)
qed

lemma unat_min_word: "unat (min (a :: addr) b) = min (unat a) (unat b)"
  by (simp add: min_def word_le_nat_alt)

lemma amountToClone_small:
  assumes "unat (p - original) < 2 ^ 32"
  shows "(ucast (amountToClone len p original) :: addr) = min len (p - original)"
  using assms by (simp add: word_unat_eq_iff unat_amountToClone unat_min_word)

lemma hugeArena_reached:
  "BufferAllocator_newWithIdentity 72 (\<lambda>a. if a = 0x1000 then 0xAB else 0) 0xFB8 0x200000000
     = Some (hugeArena\<lparr>pointer := 0x1000\<rparr>)"
  "allocatorMalloc ex 0x100000000 (hugeArena\<lparr>pointer := 0x1000\<rparr>) = (Returned 0x1000, hugeArena)"
  by (simp_all add: BufferAllocator_newWithIdentity_def allocatorMalloc_def andThen_def Let_def
      getAligned_8_samples hugeArena_def getAligned_def ALIGNMENT_def)

text \<open>
  C7, as the claim states it, fails once the cursor is \<open>2^32\<close> bytes or more past
  \<open>original\<close>: the source casts the difference to \<open>uint32_t\<close>. In \<open>hugeArena\<close> the block
  at \<open>0x1000\<close> is the latest allocation and the cursor is \<open>2^32\<close> past it; resizing it to
  16 bytes copies nothing (the first byte of the fresh block stays 0), where
  \<open>min(newSize, cursor - original) = 16\<close> bytes would bring the byte \<open>0xAB\<close> over.
\<close>

theorem allocatorRealloc_truncates_difference:
  "amountToClone 16 (pointer hugeArena) 0x1000 = 0 \<and>
   min (16 :: addr) (pointer hugeArena - 0x1000) = 16 \<and>
   fst (allocatorRealloc (\<lambda>_. NonLocalExit) 0x1000 16 hugeArena) = Returned 0x100001000 \<and>
   mem (snd (allocatorRealloc (\<lambda>_. NonLocalExit) 0x1000 16 hugeArena)) 0x100001000 = 0 \<and>
   mem (snd (resize_spec (\<lambda>_. NonLocalExit) 0x1000 16 hugeArena)) 0x100001000 = 0xAB"
  by (simp add: allocatorRealloc_def resize_spec_def allocatorMalloc_def andThen_def Let_def
      hugeArena_def getAligned_def ALIGNMENT_def amountToClone_def Bits_memcpy_def)

text \<open>
  C7, amended. With an empty \<open>original\<close>, \<open>allocatorRealloc\<close> is \<open>allocatorMalloc\<close>.
  Otherwise it allocates a fresh block of \<open>len\<close> bytes and copies into it, from
  \<open>original\<close>, exactly \<open>min(len, (cursor - original) mod 2^32)\<close> bytes, with the cursor
  as it was before the fresh allocation. While the cursor is less than \<open>2^32\<close> bytes
  past \<open>original\<close> this is what the specification says.
\<close>

theorem allocatorRealloc_copies:
  "(original = 0 \<longrightarrow> allocatorRealloc ex original len s = allocatorMalloc ex len s) \<and>
   (original \<noteq> 0 \<longrightarrow>
      (\<exists>amount.
         unat amount = min (unat len) (unat (pointer s - original) mod 2 ^ 32) \<and>
         allocatorRealloc ex original len s =
           andThen (allocatorMalloc ex len s)
             (\<lambda>fresh s1. (Returned fresh,
                 s1\<lparr>mem := Bits_memcpy (mem s1) fresh original amount\<rparr>)))) \<and>
   (unat (pointer s - original) < 2 ^ 32 \<longrightarrow>
      allocatorRealloc ex original len s = resize_spec ex original len s)"
proof (intro conjI impI)
  assume "original \<noteq> 0"
  then show "\<exists>amount.
         unat amount = min (unat len) (unat (pointer s - original) mod 2 ^ 32) \<and>
         allocatorRealloc ex original len s =
           andThen (allocatorMalloc ex len s)
             (\<lambda>fresh s1. (Returned fresh,
                 s1\<lparr>mem := Bits_memcpy (mem s1) fresh original amount\<rparr>))"
    by (intro exI [of _ "ucast (amountToClone len (pointer s) original)"])
      (simp add: unat_amountToClone allocatorRealloc_def Let_def)
next
  assume "unat (pointer s - original) < 2 ^ 32"
  then show "allocatorRealloc ex original len s = resize_spec ex original len s"
    by (simp add: allocatorRealloc_def resize_spec_def Let_def amountToClone_small)
qed (simp add: allocatorRealloc_def)

theorem allocatorRealloc_copies_witness:
  "allocatorRealloc (\<lambda>_. NonLocalExit) 0 100 sampleArena
     = allocatorMalloc (\<lambda>_. NonLocalExit) 100 sampleArena \<and>
   (\<exists>amount. unat amount = 8 \<and>
      allocatorRealloc (\<lambda>_. NonLocalExit) 0x1040 100 sampleArena =
        andThen (allocatorMalloc (\<lambda>_. NonLocalExit) 100 sampleArena)
          (\<lambda>fresh s1. (Returned fresh,
              s1\<lparr>mem := Bits_memcpy (mem s1) fresh 0x1040 amount\<rparr>))) \<and>
   allocatorRealloc (\<lambda>_. NonLocalExit) 0x1040 100 sampleArena
     = resize_spec (\<lambda>_. NonLocalExit) 0x1040 100 sampleArena"
proof -
  note empty = allocatorRealloc_copies [of 0 "\<lambda>_. NonLocalExit" 100 sampleArena]
  note block = allocatorRealloc_copies [of "0x1040" "\<lambda>_. NonLocalExit" 100 sampleArena]
  have diff: "unat (pointer sampleArena - 0x1040) = 8"
    by (simp add: sampleArena_def)
  from empty have "allocatorRealloc (\<lambda>_. NonLocalExit) 0 100 sampleArena
      = allocatorMalloc (\<lambda>_. NonLocalExit) 100 sampleArena"
    by simp
  moreover from block [THEN conjunct2, THEN conjunct1]
  have "\<exists>amount. unat amount = 8 \<and>
      allocatorRealloc (\<lambda>_. NonLocalExit) 0x1040 100 sampleArena =
        andThen (allocatorMalloc (\<lambda>_. NonLocalExit) 100 sampleArena)
          (\<lambda>fresh s1. (Returned fresh,
              s1\<lparr>mem := Bits_memcpy (mem s1) fresh 0x1040 amount\<rparr>))"
    by (simp add: diff)
  moreover from block [THEN conjunct2, THEN conjunct2]
  have "allocatorRealloc (\<lambda>_. NonLocalExit) 0x1040 100 sampleArena
      = resize_spec (\<lambda>_. NonLocalExit) 0x1040 100 sampleArena"
    by (simp add: diff)
  ultimately show ?thesis
    by blast
qed

subsection \<open>Zero-allocate\<close>

lemma andThen_Returned [simp]: "andThen (Returned v, s) f = f v s"
  by (simp add: andThen_def)

lemma andThen_Raised [simp]: "andThen (Raised c, s) f = (Raised c, s)"
  by (simp add: andThen_def)

lemma Bits_memset_inside:
  assumes "i < unat n"
  shows "Bits_memset m p v n (p + of_nat i) = v"
proof -
  from assms have "unat (of_nat i :: addr) = i"
    by (intro le_unat_uoi [of _ n]) simp
  with assms have "(of_nat i :: addr) < n"
    by (simp add: word_less_nat_alt)
  then show ?thesis
    by (simp add: Bits_memset_def)
qed

lemma Bits_memset_outside: "\<not> a - p < n \<Longrightarrow> Bits_memset m p v n a = m a"
  by (simp add: Bits_memset_def)

text \<open>
  C8. \<open>allocatorCalloc\<close> asks \<open>allocatorMalloc\<close> for \<open>len * cnt\<close> bytes, the product
  taken modulo \<open>2^64\<close> with no check, and is left by an exception exactly when that
  request is. When the request returns a block, every one of its
  \<open>(len * cnt) mod 2^64\<close> bytes is set to zero, no other byte of memory changes, and
  nothing else of the state differs from what \<open>allocatorMalloc\<close> left.
\<close>

theorem allocatorCalloc_wraps_and_zeroes:
  "unat (len * cnt) = (unat len * unat cnt) mod 2 ^ 64 \<and>
   fst (allocatorCalloc ex len cnt s) = fst (allocatorMalloc ex (len * cnt) s) \<and>
   (\<forall>p s1. allocatorMalloc ex (len * cnt) s = (Returned p, s1) \<longrightarrow>
      (\<exists>s2. allocatorCalloc ex len cnt s = (Returned p, s2) \<and>
            s2 = s1\<lparr>mem := mem s2\<rparr> \<and>
            (\<forall>i. i < (unat len * unat cnt) mod 2 ^ 64 \<longrightarrow> mem s2 (p + of_nat i) = 0) \<and>
            (\<forall>a. \<not> a - p < len * cnt \<longrightarrow> mem s2 a = mem s1 a))) \<and>
   (\<forall>c s1. allocatorMalloc ex (len * cnt) s = (Raised c, s1) \<longrightarrow>
      allocatorCalloc ex len cnt s = (Raised c, s1))"
proof -
  have prod: "unat (len * cnt) = (unat len * unat cnt) mod 2 ^ 64"
    by (simp add: unat_word_ariths)
  show ?thesis
    unfolding prod [symmetric]
    by (auto simp add: allocatorCalloc_def fst_andThen_Returned Bits_memset_outside
        Bits_memset_inside)
qed

lemma product_wraps: "(0x8000000000000000 * 2 :: addr) = 0"
  by simp

lemma allocatorMalloc_dirty:
  "allocatorMalloc ex 12 dirtyArena = (Returned 0x1048, dirtyArena\<lparr>pointer := 0x1054\<rparr>)"
  "allocatorMalloc ex 0 dirtyArena = (Returned 0x1048, dirtyArena\<lparr>pointer := 0x1048\<rparr>)"
  by (simp_all add: allocatorMalloc_def andThen_def Let_def sampleArena_def dirtyArena_def
      getAligned_sample)

text \<open>
  Four elements of three bytes: twelve bytes from \<open>0x1048\<close> are cleared and the byte
  after them keeps its value. \<open>2^63\<close> elements of two bytes: the product wraps to 0, the
  request is for no bytes and succeeds.
\<close>

theorem allocatorCalloc_wraps_and_zeroes_witness:
  "(\<exists>s2. allocatorCalloc (\<lambda>_. NonLocalExit) 4 3 dirtyArena = (Returned 0x1048, s2) \<and>
         mem s2 (0x1048 + 11) = 0 \<and> mem s2 (0x1048 + 12) = 0xAA) \<and>
   unat (0x8000000000000000 * 2 :: addr) = 0 \<and>
   fst (allocatorCalloc (\<lambda>_. NonLocalExit) 0x8000000000000000 2 dirtyArena) = Returned 0x1048"
proof -
  from allocatorCalloc_wraps_and_zeroes [of 4 3 "\<lambda>_. NonLocalExit" dirtyArena]
  obtain s2 where s2: "allocatorCalloc (\<lambda>_. NonLocalExit) 4 3 dirtyArena = (Returned 0x1048, s2)"
    and keep: "s2 = (dirtyArena\<lparr>pointer := 0x1054\<rparr>)\<lparr>mem := mem s2\<rparr>"
    and zero: "\<forall>i. i < 12 \<longrightarrow> mem s2 (0x1048 + of_nat i) = 0"
    and rest: "\<forall>a. \<not> a - 0x1048 < 12 \<longrightarrow> mem s2 a = mem (dirtyArena\<lparr>pointer := 0x1054\<rparr>) a"
    by (auto simp add: allocatorMalloc_dirty)
  from zero [rule_format, of 11] have "mem s2 (0x1048 + 11) = 0"
    by simp
  moreover from rest have "mem s2 (0x1048 + 12) = 0xAA"
    by (simp add: dirtyArena_def)
  moreover from allocatorCalloc_wraps_and_zeroes
      [of "0x8000000000000000" 2 "\<lambda>_. NonLocalExit" dirtyArena, unfolded product_wraps]
  have "unat (0x8000000000000000 * 2 :: addr) = 0"
    and "fst (allocatorCalloc (\<lambda>_. NonLocalExit) 0x8000000000000000 2 dirtyArena)
           = Returned 0x1048"
    by (simp_all add: allocatorMalloc_dirty product_wraps)
  ultimately show ?thesis
    using s2 by simp
qed

section \<open>Properties of the chain of free jobs\<close>

lemma chain_frame: "a \<notin> set as \<Longrightarrow> chain (js(a := v)) p as = chain js p as"
  by (induction as arbitrary: p) (auto split: option.splits)

lemma chain_nonzero: "chain js p as \<Longrightarrow> 0 \<notin> set as"
  by (induction as arbitrary: p) (auto split: option.splits)

lemma chain_defined: "chain js p as \<Longrightarrow> a \<in> set as \<Longrightarrow> js a \<noteq> None"
  by (induction as arbitrary: p) (auto split: option.splits)

lemma freeAllocator_loop_chain:
  "chain (jobs s) p as \<Longrightarrow>
   freeAllocator_loop p s = Some (s\<lparr>fired := fired s @ map (callOf (jobs s)) as\<rparr>)"
proof (induction as arbitrary: p s)
  case Nil
  then show ?case by (simp add: freeAllocator_loop.simps)
next
  case (Cons a as)
  from Cons.prems obtain j where a: "p = a" "a \<noteq> 0" and j: "jobs s a = Some j"
    and rest: "chain (jobs s) (nextJob j) as"
    by (auto split: option.splits)
  let ?s = "s\<lparr>fired := fired s @ [(callback j, callbackContext j)]\<rparr>"
  from rest have "chain (jobs ?s) (nextJob j) as" by simp
  from Cons.IH [OF this] a j show ?case
    by (subst freeAllocator_loop.simps) (simp add: callOf_def)
qed

lemma onFree_loop_chain:
  "chain js p as \<Longrightarrow> as \<noteq> [] \<Longrightarrow> onFree_loop js p = Some (last as)"
proof (induction as arbitrary: p)
  case Nil
  then show ?case by simp
next
  case (Cons a as)
  from Cons.prems obtain j where a: "p = a" "a \<noteq> 0" and j: "js a = Some j"
    and rest: "chain js (nextJob j) as"
    by (auto split: option.splits)
  show ?case
  proof (cases as)
    case Nil
    with rest a j show ?thesis by (subst onFree_loop.simps) simp
  next
    case (Cons b bs)
    with rest have nz: "nextJob j \<noteq> 0" by auto
    from Cons.IH [OF rest] Cons have "onFree_loop js (nextJob j) = Some (last as)" by simp
    with a j nz Cons show ?thesis by (subst onFree_loop.simps) simp
  qed
qed

lemma chain_append_one:
  assumes "chain js p as" "as \<noteq> []" "distinct as" "n \<notin> set as" "n \<noteq> 0"
    and "js n = Some jn" "nextJob jn = 0"
  shows "chain (js(last as := map_option (\<lambda>j. j\<lparr>nextJob := n\<rparr>) (js (last as)))) p (as @ [n])"
  using assms
proof (induction as arbitrary: p)
  case Nil
  then show ?case by simp
next
  case (Cons a as)
  from Cons.prems obtain j where a: "p = a" "a \<noteq> 0" and j: "js a = Some j"
    and rest: "chain js (nextJob j) as"
    by (auto split: option.splits)
  show ?case
  proof (cases as)
    case Nil
    with rest have "nextJob j = 0" by simp
    with Nil a j Cons.prems show ?thesis by simp
  next
    case (Cons b bs)
    then have ne: "as \<noteq> []" by simp
    from Cons.prems have d: "distinct as" "n \<notin> set as" "a \<notin> set as" "a \<noteq> n" by auto
    from Cons.IH [OF rest ne d(1,2) Cons.prems(5,6,7)]
    have "chain (js(last as := map_option (\<lambda>j. j\<lparr>nextJob := n\<rparr>) (js (last as)))) (nextJob j) (as @ [n])" .
    moreover have "last as \<noteq> a" using d(3) ne by (metis last_in_set)
    ultimately show ?thesis using a j ne by (simp add: fun_upd_def)
  qed
qed


lemma relinked_refl: "relinked s s"
  by (simp add: relinked_def)

lemma relinked_assign:
  "relinked s (assign q v s)"
  by (cases q) (auto simp add: relinked_def callOf_def split: option.splits)

lemma removeOnFreeJob_loop_chain:
  assumes "deref s q = Some p" "chain (jobs s) p as" "distinct as"
    and "\<forall>b. q = NextField b \<longrightarrow> b \<notin> set as"
  shows "\<exists>s' p'. removeOnFreeJob_loop j q s = Some (if j \<in> set as then 0 else - 1, s') \<and>
           deref s' q = Some p' \<and> chain (jobs s') p' (remove1 j as) \<and>
           relinked s s' \<and>
           (q \<noteq> OnFreeField \<longrightarrow> onFree s' = onFree s) \<and>
           (\<forall>c. c \<notin> set as \<and> q \<noteq> NextField c \<longrightarrow> jobs s' c = jobs s c)"
  using assms
proof (induction as arbitrary: q p)
  case Nil
  then show ?case
    by (subst removeOnFreeJob_loop.simps) (simp add: relinked_refl)
next
  case (Cons a as)
  from Cons.prems(2) obtain ja where a: "p = a" "a \<noteq> 0" and ja: "jobs s a = Some ja"
    and rest: "chain (jobs s) (nextJob ja) as"
    by (auto split: option.splits)
  from Cons.prems(3) have d: "distinct as" "a \<notin> set as" by auto
  show ?case
  proof (cases "a = j")
    case True
    let ?s' = "assign q (nextJob ja) s"
    have run: "removeOnFreeJob_loop j q s = Some (0, ?s')"
      using Cons.prems(1) a ja True by (subst removeOnFreeJob_loop.simps) simp
    have de: "deref ?s' q = Some (nextJob ja)"
      using Cons.prems(1) by (cases q) auto
    have ch: "chain (jobs ?s') (nextJob ja) as"
    proof (cases q)
      case OnFreeField
      with rest show ?thesis by simp
    next
      case (NextField b)
      with Cons.prems(4) have "b \<notin> set as" by simp
      with rest NextField show ?thesis by (simp add: chain_frame)
    qed
    have fr: "\<forall>c. c \<notin> set (a # as) \<and> q \<noteq> NextField c \<longrightarrow> jobs ?s' c = jobs s c"
      by (cases q) auto
    have "q \<noteq> OnFreeField \<longrightarrow> onFree ?s' = onFree s"
      by (cases q) auto
    with run de ch fr True d show ?thesis
      by (auto simp add: relinked_assign)
  next
    case False
    have de: "deref s (NextField a) = Some (nextJob ja)"
      using ja by simp
    from Cons.IH [OF de rest d(1)] d(2)
    obtain s' p' where run': "removeOnFreeJob_loop j (NextField a) s = Some (if j \<in> set as then 0 else - 1, s')"
      and de': "deref s' (NextField a) = Some p'"
      and ch': "chain (jobs s') p' (remove1 j as)"
      and rl: "relinked s s'"
      and hd: "onFree s' = onFree s"
      and fr': "\<forall>c. c \<notin> set as \<and> NextField a \<noteq> NextField c \<longrightarrow> jobs s' c = jobs s c"
      by auto
    have run: "removeOnFreeJob_loop j q s = Some (if j \<in> set (a # as) then 0 else - 1, s')"
      using Cons.prems(1) a False run' by (subst removeOnFreeJob_loop.simps) auto
    have dq: "deref s' q = Some a"
    proof (cases q)
      case OnFreeField
      with Cons.prems(1) a hd show ?thesis by simp
    next
      case (NextField b)
      with Cons.prems(4) have "b \<notin> set as" "b \<noteq> a" by auto
      with fr' have "jobs s' b = jobs s b" by auto
      with Cons.prems(1) a NextField show ?thesis by simp
    qed
    from de' obtain ja' where ja': "jobs s' a = Some ja'" "nextJob ja' = p'"
      by auto
    with ch' a False have ch: "chain (jobs s') a (remove1 j (a # as))"
      by auto
    have fr: "\<forall>c. c \<notin> set (a # as) \<and> q \<noteq> NextField c \<longrightarrow> jobs s' c = jobs s c"
      using fr' by auto
    from run dq ch rl hd fr show ?thesis
      by auto
  qed
qed

subsection \<open>Allocations between registrations\<close>

lemma allocatorMalloc_grown:
  assumes "ex (onOOM s) = NonLocalExit"
  shows "grown s (snd (allocatorMalloc ex n s))"
  using assms
  by (auto simp add: grown_def allocatorMalloc_def andThen_def Let_def Except_raise_def not_less)

lemma tracks_grown:
  assumes "tracks s hs live" "grown s s'"
  shows "tracks s' hs live"
proof -
  from assms(2) have p: "pointer s \<le> pointer s'" and j: "jobs s' = jobs s" and o: "onFree s' = onFree s"
    by (simp_all add: grown_def)
  from assms(1) have "pointer s \<noteq> 0" by (simp add: tracks_def)
  with p have "pointer s' \<noteq> 0" by (metis word_le_0_iff)
  moreover have "h < pointer s'" if "h < pointer s" for h
    using that p by simp
  ultimately show ?thesis
    using assms(1) by (auto simp add: tracks_def j o)
qed

subsection \<open>Registration\<close>

lemma chain_head_null: "chain js 0 as \<Longrightarrow> as = []"
  by (cases as) auto

lemma chain_null_iff: "chain js p as \<Longrightarrow> (p = 0 \<longleftrightarrow> as = [])"
  by (cases as) auto

lemma callOf_upd_other: "a \<noteq> b \<Longrightarrow> callOf (js(b := v)) a = callOf js a"
  by (simp add: callOf_def)

lemma callOf_relink: "callOf (js(b := map_option (\<lambda>j. j\<lparr>nextJob := n\<rparr>) (js b))) a = callOf js a"
  by (auto simp add: callOf_def split: option.splits)

lemma Allocator_onFree_tracks:
  assumes tr: "tracks s hs live"
    and exits: "ex (onOOM s) = NonLocalExit"
    and size: "0 < unat sizeofJob" "unat sizeofJob \<le> 2 ^ 64 - 8"
  shows "(\<exists>c s'. Allocator_onFree ex sizeofJob cb cx s = Some (Raised c, s') \<and>
            tracks s' hs live \<and> fired s' = fired s \<and> basePointer s' = basePointer s) \<or>
         (\<exists>h s'. Allocator_onFree ex sizeofJob cb cx s = Some (Returned h, s') \<and>
            tracks s' (hs @ [h]) (live @ [(h, cb, cx)]) \<and> fired s' = fired s \<and>
            basePointer s' = basePointer s)"
proof (cases "allocatorMalloc ex sizeofJob s")
  case (Pair r s1)
  have g: "grown s s1"
    using allocatorMalloc_grown [where ex = ex and s = s and n = sizeofJob, OF exits] Pair by simp
  show ?thesis
  proof (cases r)
    case (Raised c)
    with Pair have "Allocator_onFree ex sizeofJob cb cx s = Some (Raised c, s1)"
      by (simp add: Allocator_onFree_def)
    moreover have "tracks s1 hs live"
      using tr g by (rule tracks_grown)
    ultimately show ?thesis
      using g by (auto simp add: grown_def)
  next
    case (Returned h)
    with Pair have ok: "allocatorMalloc ex sizeofJob s = (Returned h, s1)"
      by simp
    note f = allocatorMalloc_success [OF ok exits size]
    let ?new = "\<lparr>callback = cb, callbackContext = cx, nextJob = 0\<rparr>"
    let ?s2 = "s1\<lparr>jobs := (jobs s1)(h \<mapsto> ?new)\<rparr>"
    let ?as = "map fst live"
    from tr have ch: "chain (jobs s) (onFree s) ?as"
      and dh: "distinct hs" and dl: "distinct ?as" and sub: "set ?as \<subseteq> set hs"
      and calls: "\<forall>j \<in> set live. callOf (jobs s) (fst j) = snd j"
      and below: "\<forall>k \<in> set hs. k < pointer s \<and> jobs s k \<noteq> None"
      and nz: "pointer s \<noteq> 0"
      by (simp_all add: tracks_def)
    have fresh: "h \<notin> set hs"
    proof
      assume "h \<in> set hs"
      with below have "h < pointer s" by simp
      with f(3) show False by simp
    qed
    then have fresh': "h \<notin> set ?as"
      using sub by auto
    have hnz: "h \<noteq> 0"
      using f(3) nz by (metis word_le_0_iff)
    have s1: "jobs s1 = jobs s" "onFree s1 = onFree s" "fired s1 = fired s"
      "basePointer s1 = basePointer s" "pointer s1 = h + sizeofJob"
      using f(2) by simp_all
    have ch2: "chain (jobs ?s2) (onFree s) ?as"
      using ch fresh' by (simp add: s1 chain_frame)
    have below': "k < h + sizeofJob" if "k \<in> set hs" for k
    proof -
      from that below have "k < pointer s" by simp
      also note f(3)
      also note f(4)
      finally show ?thesis .
    qed
    show ?thesis
    proof (cases "onFree s = 0")
      case True
      with ch have empty: "live = []"
        by (auto dest: chain_head_null)
      let ?s' = "?s2\<lparr>onFree := h\<rparr>"
      have run: "Allocator_onFree ex sizeofJob cb cx s = Some (Returned h, ?s')"
        using ok True by (simp add: Allocator_onFree_def Let_def s1)
      have "tracks ?s' (hs @ [h]) (live @ [(h, cb, cx)])"
        using empty hnz dh fresh below below' nz f(4)
        by (auto simp add: tracks_def callOf_def s1)
      with run show ?thesis
        by (simp add: s1)
    next
      case False
      with ch have ne: "?as \<noteq> []"
        by (auto simp add: chain_null_iff)
      let ?l = "last ?as"
      have lp: "onFree_loop (jobs ?s2) (onFree s) = Some ?l"
        using ch2 ne by (rule onFree_loop_chain)
      let ?s' = "assign (NextField ?l) h ?s2"
      have run: "Allocator_onFree ex sizeofJob cb cx s = Some (Returned h, ?s')"
        using ok False lp by (simp add: Allocator_onFree_def Let_def s1)
      have ch': "chain (jobs ?s') (onFree s) (?as @ [h])"
        using chain_append_one [OF ch2 ne dl fresh' hnz, of ?new]
        by simp
      have js': "jobs ?s' = ((jobs s)(h \<mapsto> ?new))
          (?l := map_option (\<lambda>j. j\<lparr>nextJob := h\<rparr>) (((jobs s)(h \<mapsto> ?new)) ?l))"
        by (simp add: s1)
      have co: "callOf (jobs ?s') a = callOf ((jobs s)(h \<mapsto> ?new)) a" for a
        by (simp only: js' callOf_relink)
      have old: "callOf (jobs ?s') (fst j) = snd j" if "j \<in> set live" for j
      proof -
        from that fresh' have "fst j \<noteq> h" by auto
        with that calls show ?thesis
          by (simp only: co) (simp add: callOf_upd_other)
      qed
      have new: "callOf (jobs ?s') h = (cb, cx)"
        by (simp only: co) (simp add: callOf_def)
      have def: "jobs ?s' k \<noteq> None" if "k \<in> set hs \<or> k = h" for k
      proof -
        from that below have "((jobs s)(h \<mapsto> ?new)) k \<noteq> None"
          by auto
        then show ?thesis
          by (simp only: js') (auto simp add: fun_upd_def)
      qed
      have ptr: "pointer ?s' = h + sizeofJob" "onFree ?s' = onFree s"
        by (simp_all add: s1)
      have "tracks ?s' (hs @ [h]) (live @ [(h, cb, cx)])"
        unfolding tracks_def ptr
        using ch' dh dl fresh fresh' sub below' f(4) nz hnz old new def
        by auto
      with run show ?thesis
        by (simp add: s1)
    qed
  qed
qed

subsection \<open>Cancellation\<close>

lemma map_fst_filter_remove1:
  "distinct (map fst xs) \<Longrightarrow> map fst (filter (\<lambda>j. fst j \<noteq> h) xs) = remove1 h (map fst xs)"
proof (induction xs)
  case Nil
  then show ?case by simp
next
  case (Cons x xs)
  show ?case
  proof (cases "fst x = h")
    case True
    with Cons.prems have "h \<notin> fst ` set xs" by auto
    then have "filter (\<lambda>j. fst j \<noteq> h) xs = xs"
      by (auto simp add: filter_id_conv)
    with True show ?thesis by simp
  next
    case False
    with Cons show ?thesis by simp
  qed
qed

lemma removeOnFreeJob_tracks:
  assumes tr: "tracks s hs live" and h: "h \<in> set hs"
  shows "\<exists>rc s'. removeOnFreeJob h s = Some (rc, s') \<and>
           tracks s' hs (filter (\<lambda>j. fst j \<noteq> h) live) \<and>
           fired s' = fired s \<and> basePointer s' = basePointer s"
proof -
  let ?as = "map fst live"
  from tr have ch: "chain (jobs s) (onFree s) ?as"
    and dh: "distinct hs" and dl: "distinct ?as" and sub: "set ?as \<subseteq> set hs"
    and calls: "\<forall>j \<in> set live. callOf (jobs s) (fst j) = snd j"
    and below: "\<forall>k \<in> set hs. k < pointer s \<and> jobs s k \<noteq> None"
    and nz: "pointer s \<noteq> 0"
    by (simp_all add: tracks_def)
  from below h obtain jh where jh: "jobs s h = Some jh"
    by auto
  have "deref s OnFreeField = Some (onFree s)"
    by simp
  from removeOnFreeJob_loop_chain [OF this ch dl, of h]
  obtain s' p' where run: "removeOnFreeJob_loop h OnFreeField s = Some (if h \<in> set ?as then 0 else - 1, s')"
    and p': "deref s' OnFreeField = Some p'"
    and ch': "chain (jobs s') p' (remove1 h ?as)"
    and rl: "relinked s s'"
    by auto
  from p' have p'': "p' = onFree s'" by simp
  from rl have same: "s' = s\<lparr>onFree := onFree s', jobs := jobs s'\<rparr>"
    and defd: "\<And>a. jobs s' a = None \<longleftrightarrow> jobs s a = None"
    and co: "\<And>a. callOf (jobs s') a = callOf (jobs s) a"
    by (simp_all add: relinked_def)
  have fields: "pointer s' = pointer s" "fired s' = fired s" "basePointer s' = basePointer s"
    using arg_cong [OF same, of pointer] arg_cong [OF same, of fired]
      arg_cong [OF same, of basePointer]
    by simp_all
  let ?live' = "filter (\<lambda>j. fst j \<noteq> h) live"
  have m: "map fst ?live' = remove1 h ?as"
    using dl by (rule map_fst_filter_remove1)
  have "tracks s' hs ?live'"
    unfolding tracks_def m fields
    using ch' p'' dh dl sub calls below nz defd co
    by (auto simp add: distinct_remove1 dest: notin_set_remove1)
  moreover have "removeOnFreeJob h s = Some (if h \<in> set ?as then 0 else - 1, s')"
    using jh run by (simp add: removeOnFreeJob_def)
  ultimately show ?thesis
    using fields by blast
qed

subsection \<open>Sequences of calls and the callbacks of a free\<close>

lemma handlesOf_append: "handlesOf (xs @ ys) = handlesOf xs @ handlesOf ys"
  by (induction xs rule: handlesOf.induct) simp_all

lemma survivors_append: "survivors (xs @ ys) live = survivors ys (survivors xs live)"
  by (induction xs live rule: survivors.induct) simp_all

lemma perform_tracks:
  assumes tr: "tracks s (handlesOf evs) (survivors evs [])"
    and exits: "\<forall>h. ex h = NonLocalExit"
    and size: "0 < unat sizeofJob" "unat sizeofJob \<le> 2 ^ 64 - 8"
    and c: "chainCall c"
  shows "\<exists>new s'. perform ex sizeofJob c (handlesOf evs) s = Some (new, s') \<and>
           tracks s' (handlesOf (evs @ new)) (survivors (evs @ new) []) \<and>
           fired s' = fired s \<and> basePointer s' = basePointer s"
proof (cases c)
  case (Malloc n)
  have "grown s (snd (allocatorMalloc ex n s))"
    using exits by (intro allocatorMalloc_grown) simp
  with tr Malloc show ?thesis
    by (auto intro: tracks_grown simp add: grown_def)
next
  case (SetOOM h)
  with tr show ?thesis
    by (simp add: BufferAllocator_onOOM_def tracks_def)
next
  case (OnFree cb cx)
  have "ex (onOOM s) = NonLocalExit"
    using exits by simp
  from Allocator_onFree_tracks [where ex = ex and cb = cb and cx = cx, OF tr this size] OnFree
  show ?thesis
    by (auto simp add: handlesOf_append survivors_append)
next
  case (Cancel k)
  show ?thesis
  proof (cases "k < length (handlesOf evs)")
    case True
    then have "handlesOf evs ! k \<in> set (handlesOf evs)"
      by simp
    from removeOnFreeJob_tracks [OF tr this] True Cancel show ?thesis
      by (auto simp add: handlesOf_append survivors_append)
  next
    case False
    with tr Cancel show ?thesis
      by simp
  qed
qed (use c in simp_all)

lemma run_tracks:
  assumes exits: "\<forall>h. ex h = NonLocalExit"
    and size: "0 < unat sizeofJob" "unat sizeofJob \<le> 2 ^ 64 - 8"
  shows "\<forall>c \<in> set calls. chainCall c \<Longrightarrow> tracks s (handlesOf evs) (survivors evs []) \<Longrightarrow>
         \<exists>evs' s'. run ex sizeofJob calls evs s = Some (evs', s') \<and>
           tracks s' (handlesOf evs') (survivors evs' []) \<and>
           fired s' = fired s \<and> basePointer s' = basePointer s"
proof (induction calls arbitrary: evs s)
  case Nil
  then show ?case by simp
next
  case (Cons c calls)
  from Cons.prems have c: "chainCall c" and rest: "\<forall>c \<in> set calls. chainCall c"
    by auto
  from perform_tracks [OF Cons.prems(2) exits size c]
  obtain new s1 where p: "perform ex sizeofJob c (handlesOf evs) s = Some (new, s1)"
    and t1: "tracks s1 (handlesOf (evs @ new)) (survivors (evs @ new) [])"
    and f1: "fired s1 = fired s" "basePointer s1 = basePointer s"
    by blast
  from Cons.IH [OF rest t1]
  obtain evs' s' where "run ex sizeofJob calls (evs @ new) s1 = Some (evs', s')"
    and "tracks s' (handlesOf evs') (survivors evs' [])"
    and "fired s' = fired s1" "basePointer s' = basePointer s1"
    by blast
  with p f1 show ?case
    by simp
qed

lemma freeAllocator_tracks:
  assumes "tracks s hs live"
  shows "freeAllocator s = Some (s\<lparr>fired := fired s @ map snd live, pointer := basePointer s\<rparr>)"
proof -
  from assms have ch: "chain (jobs s) (onFree s) (map fst live)"
    and calls: "\<forall>j \<in> set live. callOf (jobs s) (fst j) = snd j"
    by (simp_all add: tracks_def)
  from calls have "map (callOf (jobs s)) (map fst live) = map snd live"
    by simp
  with freeAllocator_loop_chain [OF ch] show ?thesis
    by (simp add: freeAllocator_def)
qed

subsection \<open>Evaluation on the sample arena\<close>

lemmas sample_eval =
  BufferAllocator_newWithIdentity_def allocatorMalloc_def andThen_def Let_def getAligned_def
  ALIGNMENT_def Allocator_onFree_def onFree_loop.simps freeAllocator_def
  freeAllocator_loop.simps removeOnFreeJob_def removeOnFreeJob_loop.simps sampleArena_def

lemma firstAndNext_sample:
  "firstAndNext (\<lambda>_. NonLocalExit) 72 48 (\<lambda>_. 0) 0x1000 4096 100
     [Malloc 200, OnFree 1 11, OnFree 2 22] 50
   = Some (Returned 0x1048, Returned 0x1000)"
  by (simp add: firstAndNext_def sample_eval)

lemma run_sample_events:
  "map_option fst (run (\<lambda>_. NonLocalExit) 48 [OnFree 1 11, OnFree 2 22, Cancel 0, OnFree 3 33] []
     sampleArena)
   = Some [Registered 0x1048 1 11, Registered 0x1078 2 22, Cancelled 0x1048 0,
       Registered 0x10A8 3 33]"
  by (simp add: sample_eval)

lemma freeAllocator_twoJobs:
  "freeAllocator twoJobs = Some (twoJobs\<lparr>fired := [(1, 11), (2, 22)], pointer := 0x1000\<rparr>)"
  by (simp add: twoJobs_def sample_eval)

lemma twoJobs_reached:
  "map_option snd (run ex 48 [OnFree 1 11, OnFree 2 22] [] sampleArena) = Some twoJobs"
  by (simp add: twoJobs_def sample_eval) (auto simp add: fun_eq_iff)


lemma allocation_fires_nothing:
  "fired (snd (allocatorMalloc ex n s)) = fired s"
  "fired (snd (allocatorCalloc ex n c s)) = fired s"
  "fired (snd (allocatorClone ex n src s)) = fired s"
  "fired (snd (allocatorRealloc ex orig n s)) = fired s"
proof -
  show m: "fired (snd (allocatorMalloc ex k s)) = fired s" for k
    by (cases "ex (onOOM s)")
      (simp_all add: allocatorMalloc_def andThen_def Let_def Except_raise_def)
  have w: "fired (snd (andThen r (\<lambda>v s1. (Returned v, s1\<lparr>mem := g v s1\<rparr>)))) = fired (snd r)"
    for r :: "addr outcome \<times> machine" and g
    by (cases r, cases "fst r") (auto simp add: andThen_def)
  show "fired (snd (allocatorCalloc ex n c s)) = fired s"
    by (simp add: allocatorCalloc_def w m)
  show "fired (snd (allocatorClone ex n src s)) = fired s"
    by (simp add: allocatorClone_def w m)
  show "fired (snd (allocatorRealloc ex orig n s)) = fired s"
    by (simp add: allocatorRealloc_def Let_def w m)
qed

text \<open>
  C5. Take an arena whose chain is empty (as construction leaves it) and whose cursor is
  not \<open>NULL\<close>, handlers that leave by a non-local exit, as the contract of the hook
  demands, and a job size between 1 and \<open>2^64 - 8\<close>. Then every sequence of
  registrations and cancellations, with plain allocations and handler installations in
  between, returns; no callback has fired when it is over; the handles it gave out are
  distinct; and \<open>freeAllocator\<close> then returns, having called exactly the callbacks of the
  jobs that were registered and not cancelled, each once, in the order of their
  registration, and leaves the cursor at \<open>basePointer\<close>. None of the four allocation
  functions calls a callback, whatever the handler does.
\<close>

theorem freeAllocator_fires_survivors:
  assumes fresh: "onFree s = 0" "pointer s \<noteq> 0"
    and exits: "\<forall>h. ex h = NonLocalExit"
    and size: "0 < unat sizeofJob" "unat sizeofJob \<le> 2 ^ 64 - 8"
    and calls: "\<forall>c \<in> set calls. chainCall c"
  shows "(\<exists>evs s1 s2.
           run ex sizeofJob calls [] s = Some (evs, s1) \<and>
           fired s1 = fired s \<and>
           freeAllocator s1 = Some s2 \<and>
           fired s2 = fired s @ map snd (survivors evs []) \<and>
           distinct (map fst (survivors evs [])) \<and>
           distinct (handlesOf evs) \<and>
           pointer s2 = basePointer s2 \<and> basePointer s2 = basePointer s) \<and>
         fired (snd (allocatorMalloc ex' n t)) = fired t \<and>
         fired (snd (allocatorCalloc ex' n k t)) = fired t \<and>
         fired (snd (allocatorClone ex' n src t)) = fired t \<and>
         fired (snd (allocatorRealloc ex' orig n t)) = fired t"
proof -
  have "tracks s (handlesOf []) (survivors [] [])"
    using fresh by (simp add: tracks_def)
  from run_tracks [OF exits size calls this]
  obtain evs s1 where r: "run ex sizeofJob calls [] s = Some (evs, s1)"
    and t: "tracks s1 (handlesOf evs) (survivors evs [])"
    and f: "fired s1 = fired s" "basePointer s1 = basePointer s"
    by blast
  from t have d: "distinct (handlesOf evs)" "distinct (map fst (survivors evs []))"
    by (simp_all add: tracks_def)
  from freeAllocator_tracks [OF t] r f d show ?thesis
    by (simp add: allocation_fires_nothing)
qed

text \<open>
  On the sample arena: register three jobs and cancel the first after the second is
  registered. \<open>freeAllocator\<close> calls the second and the third, in this order.
\<close>

theorem freeAllocator_fires_survivors_witness:
  "\<exists>evs s1 s2.
     run (\<lambda>_. NonLocalExit) 48 [OnFree 1 11, OnFree 2 22, Cancel 0, OnFree 3 33] [] sampleArena
       = Some (evs, s1) \<and>
     fired s1 = [] \<and>
     freeAllocator s1 = Some s2 \<and>
     fired s2 = [(2, 22), (3, 33)] \<and>
     pointer s2 = 0x1000"
proof -
  have "onFree sampleArena = 0" "pointer sampleArena \<noteq> 0"
    "\<forall>h. (\<lambda>_. NonLocalExit) h = NonLocalExit"
    "0 < unat (48 :: addr)" "unat (48 :: addr) \<le> 2 ^ 64 - 8"
    "\<forall>c \<in> set [OnFree 1 11, OnFree 2 22, Cancel 0, OnFree 3 33]. chainCall c"
    by (simp_all add: sampleArena_def)
  from freeAllocator_fires_survivors [OF this]
  obtain evs s1 s2
    where r: "run (\<lambda>_. NonLocalExit) 48 [OnFree 1 11, OnFree 2 22, Cancel 0, OnFree 3 33] []
        sampleArena = Some (evs, s1)"
      and f: "fired s1 = fired sampleArena" "freeAllocator s1 = Some s2"
        "fired s2 = fired sampleArena @ map snd (survivors evs [])"
        "pointer s2 = basePointer s2" "basePointer s2 = basePointer sampleArena"
    by blast
  from r run_sample_events
  have "evs = [Registered 0x1048 1 11, Registered 0x1078 2 22, Cancelled 0x1048 0,
      Registered 0x10A8 3 33]"
    by simp
  then have "map snd (survivors evs []) = [(2, 22), (3, 33)]"
    by simp
  with r f show ?thesis
    by (simp add: sampleArena_def)
qed


subsection \<open>A second free\<close>

lemma freeAllocator_loop_calls:
  assumes "freeAllocator_loop p s = Some s'"
  shows "\<exists>calls. s' = s\<lparr>fired := fired s @ calls\<rparr> \<and>
     (\<forall>t. jobs t = jobs s \<longrightarrow> freeAllocator_loop p t = Some (t\<lparr>fired := fired t @ calls\<rparr>))"
proof (rule freeAllocator_loop.raw_induct [where P = "\<lambda>p s s'.
    \<exists>calls. s' = s\<lparr>fired := fired s @ calls\<rparr> \<and>
     (\<forall>t. jobs t = jobs s \<longrightarrow> freeAllocator_loop p t = Some (t\<lparr>fired := fired t @ calls\<rparr>))",
    OF _ assms])
  fix loop job s s'
  assume IH: "\<And>p s s'. loop p s = Some s' \<Longrightarrow>
      \<exists>calls. s' = s\<lparr>fired := fired s @ calls\<rparr> \<and>
        (\<forall>t. jobs t = jobs s \<longrightarrow> freeAllocator_loop p t = Some (t\<lparr>fired := fired t @ calls\<rparr>))"
    and step: "(if job = 0 then Some s
      else case jobs s job of
             None \<Rightarrow> None
           | Some j \<Rightarrow> loop (nextJob j) (s\<lparr>fired := fired s @ [(callback j, callbackContext j)]\<rparr>))
      = Some s'"
  show "\<exists>calls. s' = s\<lparr>fired := fired s @ calls\<rparr> \<and>
     (\<forall>t. jobs t = jobs s \<longrightarrow> freeAllocator_loop job t = Some (t\<lparr>fired := fired t @ calls\<rparr>))"
  proof (cases "job = 0")
    case True
    with step have "s' = s" by simp
    moreover have "freeAllocator_loop job t = Some t" for t
      using True by (subst freeAllocator_loop.simps) simp
    ultimately show ?thesis
      by (intro exI [of _ "[]"]) simp
  next
    case False
    with step obtain j where j: "jobs s job = Some j"
      and rec: "loop (nextJob j) (s\<lparr>fired := fired s @ [(callback j, callbackContext j)]\<rparr>) = Some s'"
      by (auto split: option.splits)
    let ?c = "(callback j, callbackContext j)"
    from IH [OF rec] obtain calls
      where s': "s' = s\<lparr>fired := fired s @ ?c # calls\<rparr>"
        and again: "\<And>t. jobs t = jobs s \<Longrightarrow>
           freeAllocator_loop (nextJob j) t = Some (t\<lparr>fired := fired t @ calls\<rparr>)"
      by auto
    have "freeAllocator_loop job t = Some (t\<lparr>fired := fired t @ ?c # calls\<rparr>)"
      if t: "jobs t = jobs s" for t
    proof -
      have "jobs (t\<lparr>fired := fired t @ [?c]\<rparr>) = jobs s"
        using t by simp
      from again [OF this] False j t show ?thesis
        by (subst freeAllocator_loop.simps) simp
    qed
    with s' show ?thesis
      by (intro exI [of _ "?c # calls"]) simp
  qed
qed

text \<open>
  C10. \<open>freeAllocator\<close> writes neither the field \<open>onFree\<close> nor any job: when a call
  returns, the head of the chain and the jobs are what they were, and a second call on
  the same arena returns as well and calls the same callbacks once more, in the same
  order.
\<close>

theorem freeAllocator_keeps_chain:
  assumes "freeAllocator s = Some s1"
  shows "onFree s1 = onFree s \<and> jobs s1 = jobs s \<and>
         (\<exists>s2. freeAllocator s1 = Some s2 \<and>
               fired s2 = fired s1 @ drop (length (fired s)) (fired s1) \<and>
               onFree s2 = onFree s)"
proof -
  from assms obtain s' where loop: "freeAllocator_loop (onFree s) s = Some s'"
    and s1: "s1 = s'\<lparr>pointer := basePointer s'\<rparr>"
    by (auto simp add: freeAllocator_def split: option.splits)
  from freeAllocator_loop_calls [OF loop] obtain calls
    where s': "s' = s\<lparr>fired := fired s @ calls\<rparr>"
      and again: "\<And>t. jobs t = jobs s \<Longrightarrow>
           freeAllocator_loop (onFree s) t = Some (t\<lparr>fired := fired t @ calls\<rparr>)"
    by auto
  have keep: "onFree s1 = onFree s" "jobs s1 = jobs s" "fired s1 = fired s @ calls"
    by (simp_all add: s1 s')
  from again [OF keep(2)]
  have "freeAllocator s1 =
      Some (s1\<lparr>fired := fired s1 @ calls, pointer := basePointer s1\<rparr>)"
    by (simp add: freeAllocator_def keep(1))
  with keep show ?thesis
    by simp
qed

text \<open>
  With two jobs registered, the first \<open>freeAllocator\<close> calls both and the second calls both
  again; the head of the chain is still the first job.
\<close>

theorem freeAllocator_keeps_chain_witness:
  "\<exists>s1 s2. freeAllocator twoJobs = Some s1 \<and> fired s1 = [(1, 11), (2, 22)] \<and>
     freeAllocator s1 = Some s2 \<and> fired s2 = [(1, 11), (2, 22), (1, 11), (2, 22)] \<and>
     onFree s2 = 0x1048"
proof -
  from freeAllocator_keeps_chain [OF freeAllocator_twoJobs]
  obtain s2
    where "freeAllocator (twoJobs\<lparr>fired := [(1, 11), (2, 22)], pointer := 0x1000\<rparr>) = Some s2"
      and "fired s2 = [(1, 11), (2, 22)] @ drop (length (fired twoJobs)) [(1, 11), (2, 22)]"
      and "onFree s2 = onFree twoJobs"
    by auto
  then show ?thesis
    using freeAllocator_twoJobs by (simp add: twoJobs_def sampleArena_def)
qed


subsection \<open>The allocation after a free\<close>

lemma removeOnFreeJob_loop_base:
  assumes "removeOnFreeJob_loop j q s = Some r"
  shows "basePointer (snd r) = basePointer s"
proof (rule removeOnFreeJob_loop.raw_induct
    [where P = "\<lambda>j q s r. basePointer (snd r) = basePointer s", OF _ assms])
  fix loop j q s r
  assume IH: "\<And>q s j r. loop q s j = Some r \<Longrightarrow> basePointer (snd r) = basePointer j"
    and step: "(case deref s q of
        None \<Rightarrow> None
      | Some cur \<Rightarrow>
          if cur = 0 then Some (- 1, s)
          else if cur = j then
            (case jobs s cur of
               None \<Rightarrow> None
             | Some found \<Rightarrow> Some (0, assign q (nextJob found) s))
          else loop j (NextField cur) s) = Some r"
  have a: "basePointer (assign q v s) = basePointer s" for v
    by (cases q) simp_all
  from step show "basePointer (snd r) = basePointer s"
    by (auto simp add: a split: option.splits if_splits dest: IH)
qed

lemma allocatorMalloc_base: "basePointer (snd (allocatorMalloc ex n s)) = basePointer s"
  by (cases "ex (onOOM s)")
    (simp_all add: allocatorMalloc_def andThen_def Let_def Except_raise_def)

lemma andThen_mem_base:
  "basePointer (snd (andThen r (\<lambda>v s1. (Returned v, s1\<lparr>mem := g v s1\<rparr>)))) = basePointer (snd r)"
  by (cases r, cases "fst r") (auto simp add: andThen_def)

lemma perform_base:
  "perform ex sizeofJob c hs s = Some (new, s') \<Longrightarrow> basePointer s' = basePointer s"
proof (cases c)
  case (OnFree cb cx)
  assume "perform ex sizeofJob c hs s = Some (new, s')"
  with OnFree obtain r where r: "Allocator_onFree ex sizeofJob cb cx s = Some (r, s')"
    by (auto split: option.splits outcome.splits)
  obtain r1 s1 where m: "allocatorMalloc ex sizeofJob s = (r1, s1)"
    by (cases "allocatorMalloc ex sizeofJob s")
  then have "basePointer s1 = basePointer s"
    using allocatorMalloc_base [of ex sizeofJob s] by simp
  with r m show ?thesis
    by (auto simp add: Allocator_onFree_def Let_def split: outcome.splits if_splits option.splits)
next
  case (Cancel k)
  assume "perform ex sizeofJob c hs s = Some (new, s')"
  with Cancel show ?thesis
    by (auto simp add: removeOnFreeJob_def split: if_splits option.splits
        dest: removeOnFreeJob_loop_base)
next
  case Free
  assume "perform ex sizeofJob c hs s = Some (new, s')"
  with Free obtain t where "freeAllocator_loop (onFree s) s = Some t" "s' = t\<lparr>pointer := basePointer t\<rparr>"
    by (auto simp add: freeAllocator_def split: option.splits)
  then show ?thesis
    by (auto dest: freeAllocator_loop_calls)
qed (auto simp add: allocatorMalloc_base allocatorCalloc_def allocatorClone_def
    allocatorRealloc_def Let_def andThen_mem_base BufferAllocator_onOOM_def)

lemma run_base:
  "run ex sizeofJob calls evs s = Some (evs', s') \<Longrightarrow> basePointer s' = basePointer s"
proof (induction calls arbitrary: evs s)
  case Nil
  then show ?case by simp
next
  case (Cons c calls)
  then show ?case
    by (auto split: option.splits dest: perform_base)
qed

lemma getAligned_8: "getAligned p 8 = getAligned p ALIGNMENT"
  by (simp add: ALIGNMENT_def)

lemma reset_addresses:
  assumes new: "BufferAllocator_newWithIdentity sizeofBA m buffer len = Some s0"
    and first: "allocatorMalloc ex n s0 = (Returned a, s1)"
    and rest: "run ex sizeofJob calls evs s1 = Some (evs', s2)"
    and free: "freeAllocator s2 = Some s3"
    and again: "allocatorMalloc ex k s3 = (Returned b, s4)"
  shows "b = getAligned buffer 8 \<and>
         a = getAligned (getAligned buffer 8 + sizeofBA) ALIGNMENT \<and>
         (unat sizeofBA mod 8 = 0 \<longrightarrow> a = b + sizeofBA) \<and>
         (unat sizeofBA mod 8 = 0 \<and> sizeofBA \<noteq> 0 \<longrightarrow> b \<noteq> a)"
proof -
  note s0 = newWithIdentity_Some [OF new]
  from first have a: "a = getAligned (pointer s0) ALIGNMENT"
    by (intro allocatorMalloc_Returned [of ex n]) simp
  then have a': "a = getAligned (getAligned buffer 8 + sizeofBA) ALIGNMENT"
    by (simp add: s0)
  have "basePointer s1 = basePointer s0"
    using allocatorMalloc_base [of ex n s0] first by simp
  moreover have "basePointer s2 = basePointer s1"
    using rest by (rule run_base)
  moreover from free obtain t where "freeAllocator_loop (onFree s2) s2 = Some t"
    and s3: "s3 = t\<lparr>pointer := basePointer t\<rparr>"
    by (auto simp add: freeAllocator_def split: option.splits)
  then have "pointer s3 = basePointer s2"
    by (auto dest: freeAllocator_loop_calls)
  ultimately have p3: "pointer s3 = getAligned buffer 8"
    by (simp add: s0)
  from again have "b = getAligned (pointer s3) ALIGNMENT"
    by (intro allocatorMalloc_Returned [of ex k]) simp
  then have b: "b = getAligned buffer 8"
    by (simp add: p3 getAligned_8 getAligned_idem getAligned_mod_8)
  have al: "a = b + sizeofBA" if z: "unat sizeofBA mod 8 = 0"
  proof -
    have "unat (getAligned buffer ALIGNMENT + sizeofBA) mod 8 = 0"
    proof -
      have "unat (getAligned buffer ALIGNMENT + sizeofBA)
          = (unat (getAligned buffer ALIGNMENT) + unat sizeofBA) mod 2 ^ 64"
        by (simp add: unat_word_ariths)
      moreover have "(unat (getAligned buffer ALIGNMENT) + unat sizeofBA) mod 8 = 0"
        using z getAligned_mod_8 [of buffer] by (simp add: mod_add_eq [symmetric])
      moreover have "(x mod 2 ^ 64) mod 8 = x mod 8" for x :: nat
        by (simp add: mod_mod_cancel)
      ultimately show ?thesis by simp
    qed
    then show ?thesis
      by (simp add: a' b getAligned_8 getAligned_idem)
  qed
  from a' b al show ?thesis
    by auto
qed

text \<open>
  C3, as the claim states it, fails: \<open>freeAllocator\<close> resets the cursor to \<open>basePointer\<close>,
  the aligned start of the buffer, where the control block lies, and not to the cursor
  that construction left behind it. In a buffer of 4096 bytes at \<open>0x1000\<close> the first
  allocation is at \<open>0x1048\<close> and the allocation after \<open>freeAllocator\<close> is at \<open>0x1000\<close>.
\<close>

theorem allocation_after_free_is_not_first_allocation:
  "firstAndNext (\<lambda>_. NonLocalExit) 72 48 (\<lambda>_. 0) 0x1000 4096 100
     [Malloc 200, OnFree 1 11, OnFree 2 22] 50
   = Some (Returned 0x1048, Returned 0x1000) \<and> (0x1000 :: addr) \<noteq> 0x1048"
  by (simp add: firstAndNext_sample)

text \<open>
  C3, amended. Construct an arena, allocate, go on with registrations, cancellations,
  plain allocations and handler installations (the calls that write no bytes, with
  handlers that exit), and free the arena. The next allocation then returns \<open>basePointer\<close>, the aligned start of the buffer
  and the address of the control block. The first allocation after construction was at
  the aligned address just past the control block, which for a control block whose size
  is a multiple of 8 is \<open>basePointer + sizeofBA\<close>: the two differ by the size of the
  control block.
\<close>

theorem allocation_after_free_is_basePointer:
  assumes "firstAndNext ex sizeofBA sizeofJob m buffer len n calls k
             = Some (Returned a, Returned b)"
    and "\<forall>c \<in> set calls. chainCall c" and "\<forall>h. ex h = NonLocalExit"
  shows "b = getAligned buffer 8 \<and>
         a = getAligned (getAligned buffer 8 + sizeofBA) ALIGNMENT \<and>
         (unat sizeofBA mod 8 = 0 \<longrightarrow> a = b + sizeofBA) \<and>
         (unat sizeofBA mod 8 = 0 \<and> sizeofBA \<noteq> 0 \<longrightarrow> b \<noteq> a)"
proof -
  from assms(1) obtain s0 s1 evs s2 s3
    where "BufferAllocator_newWithIdentity sizeofBA m buffer len = Some s0"
      and "allocatorMalloc ex n s0 = (Returned a, s1)"
      and "run ex sizeofJob calls [] s1 = Some (evs, s2)"
      and "freeAllocator s2 = Some s3"
      and "fst (allocatorMalloc ex k s3) = Returned b"
    by (auto simp add: firstAndNext_def split: option.splits prod.splits)
  moreover from this(5) obtain s4 where "allocatorMalloc ex k s3 = (Returned b, s4)"
    by (cases "allocatorMalloc ex k s3") simp
  ultimately show ?thesis
    by (intro reset_addresses)
qed

text \<open>
  In the buffer of 4096 bytes at \<open>0x1000\<close>: the allocation after the free is at the
  aligned start \<open>0x1000\<close>, the first one was 72 bytes higher.
\<close>

theorem allocation_after_free_is_basePointer_witness:
  "firstAndNext (\<lambda>_. NonLocalExit) 72 48 (\<lambda>_. 0) 0x1000 4096 100
     [Malloc 200, OnFree 1 11, OnFree 2 22] 50
   = Some (Returned 0x1048, Returned 0x1000) \<and>
   (0x1000 :: addr) = getAligned 0x1000 8 \<and>
   (0x1048 :: addr) = getAligned (getAligned 0x1000 8 + 72) ALIGNMENT \<and>
   (0x1048 :: addr) = 0x1000 + 72"
proof -
  have "\<forall>c \<in> set [Malloc 200, OnFree 1 11, OnFree 2 22]. chainCall c"
    and "\<forall>h. (\<lambda>_. NonLocalExit) h = NonLocalExit"
    by simp_all
  from allocation_after_free_is_basePointer [OF firstAndNext_sample this] show ?thesis
    by (simp add: getAligned_8_samples getAligned_sample firstAndNext_sample)
qed

end
